theory Spec2Isabelle
  imports Main "HOL-Library.Sublist" "HOL-Library.Multiset"
begin

section \<open>JavaScript strings\<close>

text \<open>
  A JavaScript string is modelled as a \<^typ>\<open>string\<close>; one \<^typ>\<open>char\<close> stands for one
  UTF-16 code unit below 256, so code unit 160 (no-break space) is white space for
  \<^verbatim>\<open>\s\<close>. Code units above 255 are outside the model.
\<close>

abbreviation squote :: char where "squote \<equiv> CHR 0x27"
abbreviation dquote :: char where "dquote \<equiv> CHR 0x22"

text \<open>\<^verbatim>\<open>s.indexOf(pat)\<close> as a split: the text before and after the leftmost occurrence.\<close>

fun split_first :: "string \<Rightarrow> string \<Rightarrow> (string \<times> string) option" where
  "split_first pat [] = (if pat = [] then Some ([], []) else None)"
| "split_first pat (c # cs) =
     (if prefix pat (c # cs) then Some ([], drop (length pat) (c # cs))
      else map_option (\<lambda>(b, a). (c # b, a)) (split_first pat cs))"

text \<open>\<^verbatim>\<open>s.includes(pat)\<close>.\<close>

definition includes_str :: "string \<Rightarrow> string \<Rightarrow> bool" where
  "includes_str s pat = (split_first pat s \<noteq> None)"

text \<open>
  The replacement text of \<^verbatim>\<open>String.prototype.replace\<close> with a string pattern
  (ECMAScript GetSubstitution without captures): \<^verbatim>\<open>$$\<close> is a dollar sign, \<^verbatim>\<open>$&\<close> the
  matched text, \<^verbatim>\<open>$`\<close> the text before it, \<^verbatim>\<open>$'\<close> the text after it; every other
  character, also a dollar sign before anything else, stands for itself.
\<close>

fun get_substitution :: "string \<Rightarrow> string \<Rightarrow> string \<Rightarrow> string \<Rightarrow> string" where
  "get_substitution m b a [] = []"
| "get_substitution m b a [c] = [c]"
| "get_substitution m b a (c # d # cs) =
     (if c = CHR ''$'' then
        (if d = CHR ''$'' then CHR ''$'' # get_substitution m b a cs
         else if d = CHR ''&'' then m @ get_substitution m b a cs
         else if d = CHR 0x60 then b @ get_substitution m b a cs
         else if d = squote then a @ get_substitution m b a cs
         else c # get_substitution m b a (d # cs))
      else c # get_substitution m b a (d # cs))"

text \<open>\<^verbatim>\<open>s.replace(pat, repl)\<close> with a string pattern: the leftmost occurrence only.\<close>

definition replace_str :: "string \<Rightarrow> string \<Rightarrow> string \<Rightarrow> string" where
  "replace_str s pat repl =
     (case split_first pat s of
        None \<Rightarrow> s
      | Some (b, a) \<Rightarrow> b @ get_substitution pat b a repl @ a)"

text \<open>\<^verbatim>\<open>alias.replace(/\*/g, '.*')\<close>: every asterisk becomes \<^verbatim>\<open>.*\<close>.\<close>

definition replace_stars :: "string \<Rightarrow> string" where
  "replace_stars s = concat (map (\<lambda>c. if c = CHR ''*'' then ''.*'' else [c]) s)"

section \<open>Regular expressions\<close>

text \<open>
  The fragment of JavaScript regular expressions the program uses: a sequence of terms,
  each a one-character atom with a greedy quantifier, possibly inside a capture group,
  and the assertions \<^verbatim>\<open>^\<close> and \<^verbatim>\<open>$\<close> (no flags \<^verbatim>\<open>m\<close>, \<^verbatim>\<open>s\<close>, \<^verbatim>\<open>i\<close>, \<^verbatim>\<open>u\<close>).
\<close>

datatype cls_item = CChar char | CWord | CSpace

datatype atom = Chr char | Dot | Cls bool "cls_item list"

datatype quant = One | Star | Plus

datatype node = Bol | Eol | Term bool atom quant

definition is_word :: "char \<Rightarrow> bool" where
  "is_word c = (let n = (of_char c :: nat) in
     (65 \<le> n \<and> n \<le> 90) \<or> (97 \<le> n \<and> n \<le> 122) \<or> (48 \<le> n \<and> n \<le> 57) \<or> n = 95)"

definition is_space :: "char \<Rightarrow> bool" where
  "is_space c = (let n = (of_char c :: nat) in (9 \<le> n \<and> n \<le> 13) \<or> n = 32 \<or> n = 160)"

definition is_line_terminator :: "char \<Rightarrow> bool" where
  "is_line_terminator c = (let n = (of_char c :: nat) in n = 10 \<or> n = 13)"

fun cls_item_ok :: "cls_item \<Rightarrow> char \<Rightarrow> bool" where
  "cls_item_ok (CChar d) c = (c = d)"
| "cls_item_ok CWord c = is_word c"
| "cls_item_ok CSpace c = is_space c"

fun atom_ok :: "atom \<Rightarrow> char \<Rightarrow> bool" where
  "atom_ok (Chr d) c = (c = d)"
| "atom_ok Dot c = (\<not> is_line_terminator c)"
| "atom_ok (Cls neg items) c = (neg \<noteq> list_ex (\<lambda>i. cls_item_ok i c) items)"

text \<open>
  The lengths a greedy quantifier tries, in the order of backtracking: the longest run
  of characters the atom accepts first, then one character less each time.
\<close>

definition run_length :: "atom \<Rightarrow> string \<Rightarrow> nat" where
  "run_length a s = length (takeWhile (atom_ok a) s)"

fun candidates :: "atom \<Rightarrow> quant \<Rightarrow> string \<Rightarrow> nat list" where
  "candidates a One s = (if 1 \<le> run_length a s then [1] else [])"
| "candidates a Star s = rev [0 ..< Suc (run_length a s)]"
| "candidates a Plus s = rev [1 ..< Suc (run_length a s)]"

primrec first_some :: "('a \<Rightarrow> 'b option) \<Rightarrow> 'a list \<Rightarrow> 'b option" where
  "first_some f [] = None"
| "first_some f (x # xs) = (case f x of None \<Rightarrow> first_some f xs | Some y \<Rightarrow> Some y)"

text \<open>
  The backtracking matcher: \<open>bt ns pos s\<close> matches the nodes \<open>ns\<close> against \<open>s\<close>, the
  input from offset \<open>pos\<close> on, and returns the text each node took and the rest.
\<close>

fun bt :: "node list \<Rightarrow> nat \<Rightarrow> string \<Rightarrow> (string list \<times> string) option" where
  "bt [] pos s = Some ([], s)"
| "bt (Bol # ns) pos s =
     (if pos = 0 then map_option (\<lambda>(ps, r). ([] # ps, r)) (bt ns pos s) else None)"
| "bt (Eol # ns) pos s =
     (if s = [] then map_option (\<lambda>(ps, r). ([] # ps, r)) (bt ns pos s) else None)"
| "bt (Term cap a q # ns) pos s =
     first_some (\<lambda>k. map_option (\<lambda>(ps, r). (take k s # ps, r)) (bt ns (pos + k) (drop k s)))
       (candidates a q s)"

text \<open>The texts of the capture groups, in order.\<close>

fun captures :: "node list \<Rightarrow> string list \<Rightarrow> string list" where
  "captures (Term True a q # ns) (p # ps) = p # captures ns ps"
| "captures (n # ns) (p # ps) = captures ns ps"
| "captures ns ps = []"

text \<open>
  Whether a sequence of nodes, used without the \<^verbatim>\<open>g\<close> flag, matches somewhere in \<open>s\<close>:
  a match may start at any offset.
\<close>

definition accepts :: "node list \<Rightarrow> string \<Rightarrow> bool" where
  "accepts ns s = list_ex (\<lambda>i. bt ns i (drop i s) \<noteq> None) [0 ..< Suc (length s)]"

text \<open>
  The sources this theory reads itself: an ordinary character is a literal, \<^verbatim>\<open>.\<close> is
  any character but a line terminator, an atom followed by \<^verbatim>\<open>*\<close> is repeated, \<^verbatim>\<open>^\<close> is
  read at the start and \<^verbatim>\<open>$\<close> at the end only. \<open>parse_source\<close> gives \<open>None\<close> for every
  other source (groups, classes, escapes, alternatives, other quantifiers, assertions
  elsewhere, and sources that are syntax errors).
\<close>

definition is_syntax_char :: "char \<Rightarrow> bool" where
  "is_syntax_char c = (c \<in> set (CHR 0x5C # ''^$.*+?()[]{}|''))"

definition parse_atom :: "char \<Rightarrow> atom option" where
  "parse_atom c = (if c = CHR ''.'' then Some Dot
                   else if is_syntax_char c then None else Some (Chr c))"

fun parse_terms :: "string \<Rightarrow> node list option" where
  "parse_terms [] = Some []"
| "parse_terms [c] =
     (if c = CHR ''$'' then Some [Eol]
      else map_option (\<lambda>a. [Term False a One]) (parse_atom c))"
| "parse_terms (c # d # cs) =
     (case parse_atom c of
        None \<Rightarrow> None
      | Some a \<Rightarrow>
          if d = CHR ''*'' then map_option ((#) (Term False a Star)) (parse_terms cs)
          else map_option ((#) (Term False a One)) (parse_terms (d # cs)))"

definition parse_source :: "string \<Rightarrow> node list option" where
  "parse_source src =
     (case src of
        [] \<Rightarrow> Some []
      | c # cs \<Rightarrow> if c = CHR ''^'' then map_option ((#) Bol) (parse_terms cs)
                 else parse_terms src)"

text \<open>
  The regular-expression engine of the JavaScript runtime is not part of the
  repository. For the sources that \<open>parse_source\<close> does not read, it is a parameter of
  the model: \<open>engine src\<close> is \<open>None\<close> where \<^verbatim>\<open>new RegExp(src)\<close> throws a \<^verbatim>\<open>SyntaxError\<close>,
  and otherwise the predicate that \<^verbatim>\<open>new RegExp(src).test(s)\<close> computes. The general
  theorems hold for every engine; the closed examples use \<open>example_engine\<close> below.
\<close>

type_synonym regexp_engine = "string \<Rightarrow> (string \<Rightarrow> bool) option"

text \<open>A regular-expression object: its nodes where the theory reads the source, or
  the source for the engine.\<close>

datatype regexp = Fragment "node list" | Opaque string

datatype js_error = TypeError | SyntaxError | ReadError string | WriteError string

text \<open>\<^verbatim>\<open>new RegExp(src)\<close>.\<close>

definition RegExp :: "regexp_engine \<Rightarrow> string \<Rightarrow> js_error + regexp" where
  "RegExp engine src =
     (case parse_source src of
        Some ns \<Rightarrow> Inr (Fragment ns)
      | None \<Rightarrow> (case engine src of None \<Rightarrow> Inl SyntaxError | Some f \<Rightarrow> Inr (Opaque src)))"

text \<open>\<^verbatim>\<open>re.test(s)\<close>, for a regular expression without flags.\<close>

definition test :: "regexp_engine \<Rightarrow> regexp \<Rightarrow> string \<Rightarrow> bool" where
  "test engine re s =
     (case re of
        Fragment ns \<Rightarrow> accepts ns s
      | Opaque src \<Rightarrow> (case engine src of None \<Rightarrow> False | Some f \<Rightarrow> f s))"

section \<open>The configuration\<close>

text \<open>
  The parsed configuration file is a JSON value; \<open>None\<close> is JavaScript's \<^verbatim>\<open>undefined\<close>.
  \<open>JObj\<close> lists the own properties of the object in enumeration order. The payload
  of a number is never inspected.
\<close>

datatype json = JNull | JBool bool | JNum int | JStr string | JArr "json list"
  | JObj "(string \<times> json) list"

type_synonym js_value = "json option"

text \<open>
  The member access \<^verbatim>\<open>v.name\<close>, for a name that no prototype defines (the program reads
  \<^verbatim>\<open>compilerOptions\<close> and \<^verbatim>\<open>paths\<close>): a \<^verbatim>\<open>TypeError\<close> on \<^verbatim>\<open>undefined\<close> and \<^verbatim>\<open>null\<close>,
  \<^verbatim>\<open>undefined\<close> where the property is missing.
\<close>

fun member_of :: "js_value \<Rightarrow> string \<Rightarrow> js_error + js_value" where
  "member_of None k = Inl TypeError"
| "member_of (Some JNull) k = Inl TypeError"
| "member_of (Some (JObj kvs)) k = Inr (map_of kvs k)"
| "member_of (Some v) k = Inr None"

fun digit_string :: "nat \<Rightarrow> string" where
  "digit_string n =
     (if n < 10 then [char_of (48 + n)]
      else digit_string (n div 10) @ [char_of (48 + n mod 10)])"

definition indexed :: "'a list \<Rightarrow> (string \<times> 'a) list" where
  "indexed xs = zip (map digit_string [0 ..< length xs]) xs"

text \<open>\<^verbatim>\<open>Object.entries(v)\<close>.\<close>

fun object_entries :: "js_value \<Rightarrow> js_error + (string \<times> json) list" where
  "object_entries None = Inl TypeError"
| "object_entries (Some JNull) = Inl TypeError"
| "object_entries (Some (JBool b)) = Inr []"
| "object_entries (Some (JNum n)) = Inr []"
| "object_entries (Some (JStr s)) = Inr (indexed (map (\<lambda>c. JStr [c]) s))"
| "object_entries (Some (JArr xs)) = Inr (indexed xs)"
| "object_entries (Some (JObj kvs)) = Inr kvs"

text \<open>\<^verbatim>\<open>paths[0]\<close>.\<close>

fun index0 :: "json \<Rightarrow> js_error + js_value" where
  "index0 JNull = Inl TypeError"
| "index0 (JArr xs) = Inr (case xs of [] \<Rightarrow> None | x # _ \<Rightarrow> Some x)"
| "index0 (JStr s) = Inr (case s of [] \<Rightarrow> None | c # _ \<Rightarrow> Some (JStr [c]))"
| "index0 (JObj kvs) = Inr (map_of kvs ''0'')"
| "index0 v = Inr None"

section \<open>preparePaths\<close>

text \<open>The source's property \<^verbatim>\<open>alias\<close> is the field \<open>aliasPrefix\<close> here.\<close>

record alias_rule =
  aliasRegex :: regexp
  aliasPrefix :: string
  path :: string

text \<open>\<^verbatim>\<open>excludedPaths.some(excludedPath => alias.includes(excludedPath))\<close>.\<close>

definition shouldSkipAlias :: "string list \<Rightarrow> string \<Rightarrow> bool" where
  "shouldSkipAlias excludedPaths a =
     list_ex (\<lambda>excludedPath. includes_str a excludedPath) excludedPaths"

text \<open>
  The object built for one entry; its properties are evaluated in the order written:
  the regular expression, the stripped alias, the stripped first target.
\<close>

definition make_rule :: "regexp_engine \<Rightarrow> string \<times> json \<Rightarrow> js_error + alias_rule" where
  "make_rule engine e =
     (case RegExp engine (''^'' @ replace_stars (fst e) @ ''$'') of
        Inl err \<Rightarrow> Inl err
      | Inr re \<Rightarrow>
          (case index0 (snd e) of
             Inl err \<Rightarrow> Inl err
           | Inr (Some (JStr p)) \<Rightarrow>
               Inr \<lparr>aliasRegex = re, aliasPrefix = replace_str (fst e) ''/*'' [],
                    path = replace_str p ''/*'' []\<rparr>
           | Inr _ \<Rightarrow> Inl TypeError))"

text \<open>\<^verbatim>\<open>Array.prototype.map\<close> with a callback that may throw: the first error ends it.\<close>

fun map_result :: "('a \<Rightarrow> 'e + 'b) \<Rightarrow> 'a list \<Rightarrow> 'e + 'b list" where
  "map_result f [] = Inr []"
| "map_result f (x # xs) =
     (case f x of
        Inl e \<Rightarrow> Inl e
      | Inr y \<Rightarrow> (case map_result f xs of Inl e \<Rightarrow> Inl e | Inr ys \<Rightarrow> Inr (y # ys)))"

text \<open>
  \<^verbatim>\<open>.sort((a, b) => b.alias.length - a.alias.length)\<close>: \<^verbatim>\<open>Array.prototype.sort\<close> is stable,
  and the comparator orders by falling length of the stripped alias.
\<close>

definition sort_rules :: "alias_rule list \<Rightarrow> alias_rule list" where
  "sort_rules rs = sort_key (\<lambda>r. - int (length (aliasPrefix r))) rs"

text \<open>The expression \<^verbatim>\<open>tsconfig.compilerOptions.paths\<close>.\<close>

definition configured_paths :: "js_value \<Rightarrow> js_error + js_value" where
  "configured_paths tsconfig =
     (case member_of tsconfig ''compilerOptions'' of
        Inl e \<Rightarrow> Inl e
      | Inr compilerOptions \<Rightarrow> member_of compilerOptions ''paths'')"

definition preparePaths ::
  "regexp_engine \<Rightarrow> js_value \<Rightarrow> string list \<Rightarrow> js_error + alias_rule list" where
  "preparePaths engine tsconfig excludedPaths =
     (case configured_paths tsconfig of
        Inl e \<Rightarrow> Inl e
      | Inr paths \<Rightarrow>
     (case object_entries paths of
        Inl e \<Rightarrow> Inl e
      | Inr entries \<Rightarrow>
     (case map_result (make_rule engine)
             (filter (\<lambda>e. \<not> shouldSkipAlias excludedPaths (fst e)) entries) of
        Inl e \<Rightarrow> Inl e
      | Inr rules \<Rightarrow> Inr (sort_rules rules))))"

section \<open>findMatches\<close>

definition lit :: "string \<Rightarrow> node list" where
  "lit s = map (\<lambda>c. Term False (Chr c) One) s"

text \<open>The literal \<^verbatim>\<open>/import\s+[\w{},*\s]+\s+from\s+['"]([^'"]+)['"];/g\<close>.\<close>

definition importRegex :: "node list" where
  "importRegex =
     lit ''import'' @
     [Term False (Cls False [CSpace]) Plus,
      Term False (Cls False [CWord, CChar CHR ''{'', CChar CHR ''}'', CChar CHR '','',
                             CChar CHR ''*'', CSpace]) Plus,
      Term False (Cls False [CSpace]) Plus] @
     lit ''from'' @
     [Term False (Cls False [CSpace]) Plus,
      Term False (Cls False [CChar squote, CChar dquote]) One,
      Term True (Cls True [CChar squote, CChar dquote]) Plus,
      Term False (Cls False [CChar squote, CChar dquote]) One,
      Term False (Chr CHR '';'') One]"

text \<open>
  The matches a regular expression with the \<^verbatim>\<open>g\<close> flag finds for
  \<^verbatim>\<open>String.prototype.replace\<close>, each with its captures: the leftmost match from the
  current offset, then on from its end (one further after an empty match).
\<close>

function exec_all :: "node list \<Rightarrow> nat \<Rightarrow> string \<Rightarrow> (string \<times> string list) list" where
  "exec_all re pos s =
     (case bt re pos s of
        None \<Rightarrow> (case s of [] \<Rightarrow> [] | c # cs \<Rightarrow> exec_all re (Suc pos) cs)
      | Some (ps, r) \<Rightarrow>
          (concat ps, captures re ps) #
          (case s of
             [] \<Rightarrow> []
           | c # cs \<Rightarrow>
               exec_all re (pos + max 1 (length (concat ps)))
                 (drop (max 1 (length (concat ps))) s)))"
  by pat_completeness auto
termination
  by (relation "measure (\<lambda>(re, pos, s). length s)") auto

text \<open>The source's property \<^verbatim>\<open>alias\<close> is the field \<open>matchAlias\<close> here.\<close>

record import_match =
  match :: string
  matchAlias :: string
  importPath :: string
  aliasPath :: string

text \<open>
  The callback of \<^verbatim>\<open>targetFileContent.replace(importRegex, ...)\<close>: the loop over the
  rules stops at the first rule whose regular expression accepts the import path and
  pushes one entry; \<open>None\<close> is a call that pushes nothing.
\<close>

primrec callback ::
  "regexp_engine \<Rightarrow> alias_rule list \<Rightarrow> string \<Rightarrow> string \<Rightarrow> import_match option" where
  "callback engine [] m p = None"
| "callback engine (r # rs) m p =
     (if test engine (aliasRegex r) p
      then Some \<lparr>match = m, matchAlias = aliasPrefix r, importPath = p, aliasPath = path r\<rparr>
      else callback engine rs m p)"

text \<open>
  The entries pushed for a file text; the callback's second argument, the import path,
  is the first capture (the import pattern has exactly one group).
\<close>

definition collect_matches ::
  "regexp_engine \<Rightarrow> alias_rule list \<Rightarrow> string \<Rightarrow> import_match list" where
  "collect_matches engine paths targetFileContent =
     List.map_filter
       (\<lambda>(m, caps). case caps of [] \<Rightarrow> None | p # _ \<Rightarrow> callback engine paths m p)
       (exec_all importRegex 0 targetFileContent)"

text \<open>
  The file system: the text of each readable file, and the paths that can be written.
  \<^verbatim>\<open>fs.readFileSync\<close> and \<^verbatim>\<open>fs.writeFileSync\<close> throw where they cannot read or write.
\<close>

record filesystem =
  content :: "string \<Rightarrow> string option"
  writable :: "string \<Rightarrow> bool"

definition readFileSync :: "filesystem \<Rightarrow> string \<Rightarrow> js_error + string" where
  "readFileSync fs p = (case content fs p of None \<Rightarrow> Inl (ReadError p) | Some t \<Rightarrow> Inr t)"

definition writeFileSync :: "filesystem \<Rightarrow> string \<Rightarrow> string \<Rightarrow> js_error + filesystem" where
  "writeFileSync fs p t =
     (if writable fs p then Inr (fs\<lparr>content := (content fs)(p \<mapsto> t)\<rparr>)
      else Inl (WriteError p))"

definition findMatches ::
  "regexp_engine \<Rightarrow> filesystem \<Rightarrow> string \<Rightarrow> alias_rule list
     \<Rightarrow> js_error + (import_match list \<times> string)" where
  "findMatches engine fs targetFilePath paths =
     (case readFileSync fs targetFilePath of
        Inl e \<Rightarrow> Inl e
      | Inr targetFileContent \<Rightarrow>
          Inr (collect_matches engine paths targetFileContent, targetFileContent))"

section \<open>Paths\<close>

text \<open>
  Node's \<^verbatim>\<open>path\<close> module is not part of the repository. Its POSIX functions
  \<^verbatim>\<open>dirname\<close>, \<^verbatim>\<open>relative\<close> and \<^verbatim>\<open>join\<close> are modelled after its documentation, on the
  segments between slashes; \<open>cwd\<close> is the absolute working directory that
  \<^verbatim>\<open>relative\<close> resolves relative paths against.
\<close>

fun split_slash :: "string \<Rightarrow> string list" where
  "split_slash [] = [[]]"
| "split_slash (c # cs) =
     (if c = CHR ''/'' then [] # split_slash cs
      else (case split_slash cs of [] \<Rightarrow> [[c]] | x # xs \<Rightarrow> (c # x) # xs))"

fun join_slash :: "string list \<Rightarrow> string" where
  "join_slash [] = []"
| "join_slash [x] = x"
| "join_slash (x # y # ys) = x @ ''/'' @ join_slash (y # ys)"

text \<open>Resolving \<^verbatim>\<open>.\<close> and \<^verbatim>\<open>..\<close>; \<open>acc\<close> holds the segments kept so far, last first.\<close>

fun normalize_segments :: "bool \<Rightarrow> string list \<Rightarrow> string list \<Rightarrow> string list" where
  "normalize_segments allowAboveRoot acc [] = rev acc"
| "normalize_segments allowAboveRoot acc (x # xs) =
     (if x = [] \<or> x = ''.'' then normalize_segments allowAboveRoot acc xs
      else if x = ''..'' then
        (case acc of
           [] \<Rightarrow> normalize_segments allowAboveRoot (if allowAboveRoot then [''..''] else []) xs
         | y # ys \<Rightarrow>
             if y = ''..''
             then normalize_segments allowAboveRoot
                    (if allowAboveRoot then ''..'' # acc else acc) xs
             else normalize_segments allowAboveRoot ys xs)
      else normalize_segments allowAboveRoot (x # acc) xs)"

definition is_absolute :: "string \<Rightarrow> bool" where
  "is_absolute p = (case p of [] \<Rightarrow> False | c # _ \<Rightarrow> c = CHR ''/'')"

definition posix_normalize :: "string \<Rightarrow> string" where
  "posix_normalize p =
     (if p = [] then ''.''
      else
        (let trailing = (last p = CHR ''/'');
             body = join_slash (normalize_segments (\<not> is_absolute p) [] (split_slash p))
         in if body = [] then (if is_absolute p then ''/'' else if trailing then ''./'' else ''.'')
            else (if is_absolute p then ''/'' else []) @ body @ (if trailing then ''/'' else [])))"

definition posix_join :: "string \<Rightarrow> string \<Rightarrow> string" where
  "posix_join a b =
     (if a = [] \<and> b = [] then ''.''
      else posix_normalize (if a = [] then b else if b = [] then a else a @ ''/'' @ b))"

definition resolve_segments :: "string \<Rightarrow> string \<Rightarrow> string list" where
  "resolve_segments cwd p =
     normalize_segments False [] (split_slash (if is_absolute p then p else cwd @ ''/'' @ p))"

fun strip_common :: "string list \<Rightarrow> string list \<Rightarrow> string list \<times> string list" where
  "strip_common (x # xs) (y # ys) = (if x = y then strip_common xs ys else (x # xs, y # ys))"
| "strip_common xs ys = (xs, ys)"

definition posix_relative :: "string \<Rightarrow> string \<Rightarrow> string \<Rightarrow> string" where
  "posix_relative cwd from to =
     (if from = to then []
      else
        (case strip_common (resolve_segments cwd from) (resolve_segments cwd to) of
           (up, down) \<Rightarrow> join_slash (replicate (length up) ''..'' @ down)))"

definition posix_dirname :: "string \<Rightarrow> string" where
  "posix_dirname p =
     (case p of
        [] \<Rightarrow> ''.''
      | c # cs \<Rightarrow>
          (let body = rev (dropWhile (\<lambda>x. x = CHR ''/'') (rev cs));
               cut = rev (dropWhile (\<lambda>x. x \<noteq> CHR ''/'') (rev body))
           in if cut = [] then (if c = CHR ''/'' then ''/'' else ''.'')
              else if c = CHR ''/'' \<and> length cut = 1 then ''//''
              else c # butlast cut))"

section \<open>replaceAliases\<close>

text \<open>One turn of \<^verbatim>\<open>matches.forEach\<close>: the new value of \<^verbatim>\<open>result\<close>.\<close>

definition relativePathToAliasPath :: "import_match \<Rightarrow> string" where
  "relativePathToAliasPath m = replace_str (importPath m) (matchAlias m) []"

definition relativePath :: "string \<Rightarrow> string \<Rightarrow> import_match \<Rightarrow> string" where
  "relativePath cwd targetFilePath m =
     posix_relative cwd (posix_dirname targetFilePath) (aliasPath m)"

definition longestRelativeImportPath :: "string \<Rightarrow> string \<Rightarrow> import_match \<Rightarrow> string" where
  "longestRelativeImportPath cwd targetFilePath m =
     posix_join (relativePath cwd targetFilePath m) (relativePathToAliasPath m)"

definition fixedRelativeImportPath :: "string \<Rightarrow> string \<Rightarrow> import_match \<Rightarrow> string" where
  "fixedRelativeImportPath cwd targetFilePath m =
     replace_str (match m) (importPath m) (longestRelativeImportPath cwd targetFilePath m)"

definition replace_step :: "string \<Rightarrow> string \<Rightarrow> string \<Rightarrow> import_match \<Rightarrow> string" where
  "replace_step cwd targetFilePath result m =
     replace_str result (match m) (fixedRelativeImportPath cwd targetFilePath m)"

definition replaceAliases :: "string \<Rightarrow> import_match list \<Rightarrow> string \<Rightarrow> string \<Rightarrow> string" where
  "replaceAliases cwd matches targetFileContent targetFilePath =
     foldl (replace_step cwd targetFilePath) targetFileContent matches"

section \<open>replaceImports\<close>

text \<open>\<^verbatim>\<open>writeResultToFile\<close>; \<open>dry\<close> is \<^verbatim>\<open>cliOptions.dry\<close>.\<close>

definition writeResultToFile ::
  "bool \<Rightarrow> filesystem \<Rightarrow> string \<Rightarrow> string \<Rightarrow> js_error + filesystem" where
  "writeResultToFile dry fs targetFilePath result =
     (if dry then Inr fs else writeFileSync fs targetFilePath result)"

text \<open>
  \<^verbatim>\<open>files.forEach\<close> in \<^verbatim>\<open>replaceImports\<close>, from the file system and the count reached so
  far. Nothing catches an exception, so the first one ends the loop and the function;
  the result is the file system left behind, with the error or \<^verbatim>\<open>fixedImportStatements\<close>.
\<close>

fun replaceImports_loop ::
  "bool \<Rightarrow> regexp_engine \<Rightarrow> string \<Rightarrow> alias_rule list \<Rightarrow> string list \<Rightarrow> filesystem \<Rightarrow> nat
     \<Rightarrow> filesystem \<times> (js_error + nat)" where
  "replaceImports_loop dry engine cwd paths [] fs fixedImportStatements =
     (fs, Inr fixedImportStatements)"
| "replaceImports_loop dry engine cwd paths (file # files) fs fixedImportStatements =
     (case findMatches engine fs file paths of
        Inl e \<Rightarrow> (fs, Inl e)
      | Inr (matches, targetFileContent) \<Rightarrow>
          if length matches = 0
          then replaceImports_loop dry engine cwd paths files fs fixedImportStatements
          else
            (case writeResultToFile dry fs file
                    (replaceAliases cwd matches targetFileContent file) of
               Inl e \<Rightarrow> (fs, Inl e)
             | Inr fs' \<Rightarrow>
                 replaceImports_loop dry engine cwd paths files fs'
                   (fixedImportStatements + length matches)))"

definition replaceImports ::
  "bool \<Rightarrow> regexp_engine \<Rightarrow> string \<Rightarrow> filesystem \<Rightarrow> string list \<Rightarrow> alias_rule list
     \<Rightarrow> filesystem \<times> (js_error + nat)" where
  "replaceImports dry engine cwd fs files paths =
     replaceImports_loop dry engine cwd paths files fs 0"

section \<open>Reference notions and example inputs\<close>

text \<open>
  The alias as the specification reads it, a glob: every character stands for itself
  and \<^verbatim>\<open>*\<close> for any sequence of characters. This definition follows the
  specification's words, not the code; the code's matcher is \<open>aliasRegex\<close>.
\<close>

fun spec_glob_denotes :: "string \<Rightarrow> string \<Rightarrow> bool" where
  "spec_glob_denotes [] s = (s = [])"
| "spec_glob_denotes (c # cs) s =
     (if c = CHR ''*''
      then list_ex (\<lambda>k. spec_glob_denotes cs (drop k s)) [0 ..< Suc (length s)]
      else (case s of [] \<Rightarrow> False | d # ds \<Rightarrow> d = c \<and> spec_glob_denotes cs ds))"

text \<open>
  The engine at the one source outside the fragment that the examples use: the source
  \<^verbatim>\<open>^$lib/.*$\<close> compiles and, asking for a character after the end of the input,
  matches no text. The examples consult the engine for no other source.
\<close>

definition example_engine :: regexp_engine where
  "example_engine src = (if src = ''^$lib/.*$'' then Some (\<lambda>s. False) else None)"

definition config_without_paths :: js_value where
  "config_without_paths = Some (JObj [(''compilerOptions'', JObj [(''strict'', JBool True)])])"

definition config_paths_number :: js_value where
  "config_paths_number = Some (JObj [(''compilerOptions'', JObj [(''paths'', JNum 5)])])"

definition config_app :: js_value where
  "config_app = Some (JObj [(''compilerOptions'', JObj [(''paths'',
        JObj [(''@app/*'', JArr [JStr ''src/app''])])])])"

definition config_app_core :: js_value where
  "config_app_core = Some (JObj [(''compilerOptions'', JObj [(''paths'',
        JObj [(''@app/*'', JArr [JStr ''src/app'']),
              (''@app/core/*'', JArr [JStr ''src/app/core''])])])])"

definition config_dot :: js_value where
  "config_dot = Some (JObj [(''compilerOptions'', JObj [(''paths'',
        JObj [(''@a.b/*'', JArr [JStr ''src/ab/*''])])])])"

definition config_app_lib :: js_value where
  "config_app_lib = Some (JObj [(''compilerOptions'', JObj [(''paths'',
        JObj [(''$lib/*'', JArr [JStr ''src/lib'']),
              (''@app/core/*'', JArr [JStr ''src/app/core''])])])])"

definition lib_rule :: alias_rule where
  "lib_rule = \<lparr>aliasRegex = Opaque ''^$lib/.*$'', aliasPrefix = ''$lib'', path = ''src/lib''\<rparr>"

definition app_core_rule :: alias_rule where
  "app_core_rule = \<lparr>aliasRegex = Fragment (Bol # lit ''@app/core/'' @ [Term False Dot Star, Eol]),
      aliasPrefix = ''@app/core'', path = ''src/app/core''\<rparr>"

definition app_rule :: alias_rule where
  "app_rule = \<lparr>aliasRegex = Fragment (Bol # lit ''@app/'' @ [Term False Dot Star, Eol]),
      aliasPrefix = ''@app'', path = ''src/app''\<rparr>"

text \<open>The statements the scan finds in a text, each with its import path, and the
  import paths alone.\<close>

definition found_statements :: "string \<Rightarrow> (string \<times> string) list" where
  "found_statements text =
     List.map_filter (\<lambda>(m, caps). case caps of [] \<Rightarrow> None | p # _ \<Rightarrow> Some (m, p))
       (exec_all importRegex 0 text)"


definition imported_paths :: "string \<Rightarrow> string list" where
  "imported_paths text =
     List.map_filter (\<lambda>(m, caps). case caps of [] \<Rightarrow> None | p # _ \<Rightarrow> Some p)
       (exec_all importRegex 0 text)"

definition import_stmt :: "string \<Rightarrow> string \<Rightarrow> string" where
  "import_stmt bindings p =
     ''import '' @ bindings @ '' from '' @ [squote] @ p @ [squote] @ '';''"

text \<open>Two readable files, each with one alias import; \<^verbatim>\<open>a.ts\<close> does not exist.\<close>

definition fs_three :: filesystem where
  "fs_three = \<lparr>content = [''c.ts'' \<mapsto> import_stmt ''c'' ''@app/c'',
                            ''b.ts'' \<mapsto> import_stmt ''b'' ''@app/b''],
               writable = (\<lambda>p. True)\<rparr>"

text \<open>A file with an alias import and a file with a relative import only.\<close>

definition fs_mixed :: filesystem where
  "fs_mixed = \<lparr>content = [''c.ts'' \<mapsto> import_stmt ''c'' ''@app/c'',
                            ''r.ts'' \<mapsto> import_stmt ''{ b }'' ''./b'' @ '' b();''],
               writable = (\<lambda>p. True)\<rparr>"

definition config_mid :: js_value where
  "config_mid = Some (JObj [(''compilerOptions'', JObj [(''paths'',
        JObj [(''@lib/*/src'', JArr [JStr ''packages/*/src''])])])])"

definition mid_rule :: alias_rule where
  "mid_rule = \<lparr>aliasRegex = Fragment (Bol # lit ''@lib/'' @ [Term False Dot Star] @ lit ''/src'' @ [Eol]),
      aliasPrefix = ''@lib/src'', path = ''packages/src''\<rparr>"

definition config_utils :: js_value where
  "config_utils = Some (JObj [(''compilerOptions'', JObj [(''paths'',
        JObj [(''utils'', JArr [JStr ''src/utils''])])])])"

definition utils_rule :: alias_rule where
  "utils_rule = \<lparr>aliasRegex = Fragment (Bol # lit ''utils'' @ [Eol]),
      aliasPrefix = ''utils'', path = ''src/utils''\<rparr>"

definition config_components :: js_value where
  "config_components = Some (JObj [(''compilerOptions'', JObj [(''paths'',
        JObj [(''@components/*'', JArr [JStr ''src/components/*''])])])])"

definition components_rule :: alias_rule where
  "components_rule = \<lparr>aliasRegex = Fragment (Bol # lit ''@components/'' @ [Term False Dot Star, Eol]),
      aliasPrefix = ''@components'', path = ''src/components''\<rparr>"

text \<open>
  What a sequence of nodes denotes: \<open>fits ns pos ps r\<close> holds when the texts \<open>ps\<close>, one
  for each node, are texts the nodes can take one after the other from offset \<open>pos\<close>,
  with \<open>r\<close> left of the input. This is the reference the backtracking matcher is
  compared with.
\<close>

definition term_ok :: "atom \<Rightarrow> quant \<Rightarrow> string \<Rightarrow> bool" where
  "term_ok a q p =
     (list_all (atom_ok a) p \<and> (case q of One \<Rightarrow> length p = 1 | Star \<Rightarrow> True | Plus \<Rightarrow> p \<noteq> []))"

fun fits :: "node list \<Rightarrow> nat \<Rightarrow> string list \<Rightarrow> string \<Rightarrow> bool" where
  "fits [] pos ps r = (ps = [])"
| "fits (n # ns) pos [] r = False"
| "fits (Bol # ns) pos (p # ps) r = (p = [] \<and> pos = 0 \<and> fits ns pos ps r)"
| "fits (Eol # ns) pos (p # ps) r = (p = [] \<and> concat ps @ r = [] \<and> fits ns pos ps r)"
| "fits (Term cap a q # ns) pos (p # ps) r = (term_ok a q p \<and> fits ns (pos + length p) ps r)"

text \<open>
  The shape of an import statement in words, as the specification gives it but with
  the comma in the bindings clause and the semicolon required: \<^verbatim>\<open>import\<close>, white space,
  a bindings clause of word characters, braces, commas, asterisks and white space,
  white space, \<^verbatim>\<open>from\<close>, white space, a quote, a non-empty text without quotes, a
  quote, and a semicolon. This is the reference notion; the code's pattern is
  \<open>importRegex\<close>.
\<close>

definition is_binding_char :: "char \<Rightarrow> bool" where
  "is_binding_char c =
     (is_word c \<or> c = CHR ''{'' \<or> c = CHR ''}'' \<or> c = CHR '','' \<or> c = CHR ''*'' \<or> is_space c)"

definition is_quote :: "char \<Rightarrow> bool" where
  "is_quote c = (c = squote \<or> c = dquote)"

definition import_shape :: "string \<Rightarrow> bool" where
  "import_shape m =
     (\<exists>w1 b w2 w3 q1 p q2.
        m = ''import'' @ w1 @ b @ w2 @ ''from'' @ w3 @ [q1] @ p @ [q2] @ '';'' \<and>
        w1 \<noteq> [] \<and> list_all is_space w1 \<and>
        b \<noteq> [] \<and> list_all is_binding_char b \<and>
        w2 \<noteq> [] \<and> list_all is_space w2 \<and>
        w3 \<noteq> [] \<and> list_all is_space w3 \<and>
        is_quote q1 \<and> p \<noteq> [] \<and> list_all (\<lambda>c. \<not> is_quote c) p \<and> is_quote q2)"

section \<open>Properties of preparePaths\<close>

lemma split_first_sound: "split_first pat s = Some (b, a) \<Longrightarrow> s = b @ pat @ a"
proof (induction s arbitrary: b)
  case Nil
  then show ?case by (simp split: if_splits)
next
  case (Cons c cs)
  show ?case
  proof (cases "prefix pat (c # cs)")
    case True
    with Cons.prems show ?thesis by (auto simp: prefix_def)
  next
    case False
    with Cons.prems obtain b' where "split_first pat cs = Some (b', a)" "b = c # b'"
      by auto
    with Cons.IH show ?thesis by simp
  qed
qed

lemma includes_str_sublist: "includes_str s pat \<longleftrightarrow> sublist pat s"
  unfolding includes_str_def
  by (induction s) (auto simp: sublist_Cons_right)

lemma shouldSkipAlias_iff:
  "shouldSkipAlias ex a \<longleftrightarrow> (\<exists>x\<in>set ex. sublist x a)"
  by (simp add: shouldSkipAlias_def list_ex_iff includes_str_sublist)

lemma mset_sort_rules: "mset (sort_rules rs) = mset rs"
  by (simp add: sort_rules_def)

lemma sorted_sort_rules:
  "sorted_wrt (\<lambda>a b. length (aliasPrefix b) \<le> length (aliasPrefix a)) (sort_rules rs)"
proof -
  have "sorted (map (\<lambda>r. - int (length (aliasPrefix r))) (sort_rules rs))"
    unfolding sort_rules_def by (rule sorted_sort_key)
  then show ?thesis by (simp add: sorted_map)
qed

lemma preparePaths_Inr:
  "preparePaths engine tsconfig ex = Inr t \<Longrightarrow>
   \<exists>p es rs. configured_paths tsconfig = Inr p \<and> object_entries p = Inr es \<and>
     map_result (make_rule engine) (filter (\<lambda>e. \<not> shouldSkipAlias ex (fst e)) es) = Inr rs \<and>
     t = sort_rules rs"
  by (auto simp: preparePaths_def split: sum.splits)

lemma member_of_error: "member_of v k = Inl e \<Longrightarrow> e = TypeError"
  by (cases "(v, k)" rule: member_of.cases) auto

lemma configured_paths_error: "configured_paths tsconfig = Inl e \<Longrightarrow> e = TypeError"
  by (auto simp: configured_paths_def split: sum.splits dest: member_of_error)

text \<open>
  C4, as the claim states it, fails: a \<^verbatim>\<open>paths\<close> value that is malformed but neither
  missing nor \<^verbatim>\<open>null\<close>, here the number 5, is not rejected; \<^verbatim>\<open>Object.entries\<close> gives
  no entry for it and \<open>preparePaths\<close> returns the empty table without any error.
\<close>

theorem preparePaths_malformed_paths_empty_table:
  "preparePaths example_engine config_paths_number [] = Inr []"
  by code_simp

text \<open>
  C4, amended: when evaluating \<^verbatim>\<open>tsconfig.compilerOptions.paths\<close> throws (the
  configuration or its \<^verbatim>\<open>compilerOptions\<close> is \<^verbatim>\<open>undefined\<close> or \<^verbatim>\<open>null\<close>) or yields
  \<^verbatim>\<open>undefined\<close> or \<^verbatim>\<open>null\<close> (the key \<^verbatim>\<open>paths\<close> is absent or \<^verbatim>\<open>null\<close>), \<open>preparePaths\<close>
  throws a \<^verbatim>\<open>TypeError\<close> for every exclusion list and returns no table, so no empty
  table is produced.
\<close>

theorem preparePaths_absent_paths_throws:
  "configured_paths tsconfig = Inl e \<or> configured_paths tsconfig = Inr None
     \<or> configured_paths tsconfig = Inr (Some JNull)
   \<Longrightarrow> preparePaths engine tsconfig excludedPaths = Inl TypeError"
  by (auto simp: preparePaths_def dest: configured_paths_error)

theorem preparePaths_absent_paths_throws_witness:
  "configured_paths config_without_paths = Inr None \<and>
   preparePaths example_engine config_without_paths [''app''] = Inl TypeError"
proof -
  have h: "configured_paths config_without_paths = Inr None" by code_simp
  show ?thesis
    using h preparePaths_absent_paths_throws
            [where tsconfig = config_without_paths and excludedPaths = "[''app'']"
               and engine = example_engine] by simp
qed

lemma map_filter_set:
  "x \<in> set (List.map_filter f xs) \<longleftrightarrow> (\<exists>y\<in>set xs. f y = Some x)"
  by (induction xs) (auto simp: map_filter_simps split: option.splits)

lemma callback_Some:
  "callback engine t m p = Some x \<Longrightarrow> importPath x = p \<and> (\<exists>r\<in>set t. test engine (aliasRegex r) p)"
  by (induction t) (auto split: if_splits)

lemma callback_find:
  "callback engine t m p =
     map_option
       (\<lambda>r. \<lparr>match = m, matchAlias = aliasPrefix r, importPath = p, aliasPath = path r\<rparr>)
       (find (\<lambda>r. test engine (aliasRegex r) p) t)"
  by (induction t) auto

lemma collect_matches_accepted:
  assumes "x \<in> set (collect_matches engine t c)"
  shows "\<exists>r\<in>set t. test engine (aliasRegex r) (importPath x)"
proof -
  from assms obtain m caps where
    "(case caps of [] \<Rightarrow> None | p # _ \<Rightarrow> callback engine t m p) = Some x"
    unfolding collect_matches_def map_filter_set by auto
  then obtain p where "callback engine t m p = Some x"
    by (cases caps) auto
  then show ?thesis by (auto dest: callback_Some)
qed

lemma callback_first:
  "callback engine t m p = Some x \<Longrightarrow>
   \<exists>pre r post. t = pre @ r # post \<and> (\<forall>r'\<in>set pre. \<not> test engine (aliasRegex r') p) \<and>
     test engine (aliasRegex r) p \<and>
     x = \<lparr>match = m, matchAlias = aliasPrefix r, importPath = p, aliasPath = path r\<rparr>"
proof (induction t)
  case Nil
  then show ?case by simp
next
  case (Cons r0 t)
  show ?case
  proof (cases "test engine (aliasRegex r0) p")
    case True
    with Cons.prems have "x = \<lparr>match = m, matchAlias = aliasPrefix r0, importPath = p,
        aliasPath = path r0\<rparr>" by simp
    with True have "r0 # t = [] @ r0 # t \<and> (\<forall>r'\<in>set []. \<not> test engine (aliasRegex r') p) \<and>
      test engine (aliasRegex r0) p \<and>
      x = \<lparr>match = m, matchAlias = aliasPrefix r0, importPath = p, aliasPath = path r0\<rparr>"
      by simp
    then show ?thesis by blast
  next
    case False
    with Cons.prems have "callback engine t m p = Some x" by simp
    from Cons.IH [OF this] obtain pre r post where
      "t = pre @ r # post" "\<forall>r'\<in>set pre. \<not> test engine (aliasRegex r') p"
      "test engine (aliasRegex r) p"
      "x = \<lparr>match = m, matchAlias = aliasPrefix r, importPath = p, aliasPath = path r\<rparr>"
      by blast
    with False have "r0 # t = (r0 # pre) @ r # post \<and>
      (\<forall>r'\<in>set (r0 # pre). \<not> test engine (aliasRegex r') p) \<and>
      test engine (aliasRegex r) p \<and>
      x = \<lparr>match = m, matchAlias = aliasPrefix r, importPath = p, aliasPath = path r\<rparr>"
      by simp
    then show ?thesis by blast
  qed
qed

lemma collect_matches_first:
  assumes "x \<in> set (collect_matches engine t text)"
  shows "\<exists>pre r post. t = pre @ r # post \<and>
     (\<forall>r'\<in>set pre. \<not> test engine (aliasRegex r') (importPath x)) \<and>
     test engine (aliasRegex r) (importPath x) \<and>
     matchAlias x = aliasPrefix r \<and> aliasPath x = path r"
proof -
  from assms obtain m caps where
    "(case caps of [] \<Rightarrow> None | p # _ \<Rightarrow> callback engine t m p) = Some x"
    unfolding collect_matches_def map_filter_set by auto
  then obtain p where "callback engine t m p = Some x"
    by (cases caps) auto
  then have "importPath x = p" by (auto dest: callback_Some)
  from callback_first [OF \<open>callback engine t m p = Some x\<close>] obtain pre r post where
    "t = pre @ r # post" "\<forall>r'\<in>set pre. \<not> test engine (aliasRegex r') p"
    "test engine (aliasRegex r) p"
    "x = \<lparr>match = m, matchAlias = aliasPrefix r, importPath = p, aliasPath = path r\<rparr>"
    by blast
  then have "t = pre @ r # post \<and>
     (\<forall>r'\<in>set pre. \<not> test engine (aliasRegex r') (importPath x)) \<and>
     test engine (aliasRegex r) (importPath x) \<and>
     matchAlias x = aliasPrefix r \<and> aliasPath x = path r"
    by simp
  then show ?thesis by blast
qed

lemma map_filter_map_filter:
  "List.map_filter g (List.map_filter f xs) =
   List.map_filter (\<lambda>x. case f x of None \<Rightarrow> None | Some y \<Rightarrow> g y) xs"
  by (induction xs) (auto simp: map_filter_simps split: option.splits)

lemma collect_matches_find:
  "collect_matches engine t text =
     List.map_filter
       (\<lambda>(m, p). map_option
          (\<lambda>r. \<lparr>match = m, matchAlias = aliasPrefix r, importPath = p, aliasPath = path r\<rparr>)
          (find (\<lambda>r. test engine (aliasRegex r) p) t))
       (found_statements text)"
  unfolding collect_matches_def found_statements_def map_filter_map_filter
  by (rule arg_cong [where f = "\<lambda>f. List.map_filter f (exec_all importRegex 0 text)"])
     (auto simp: fun_eq_iff callback_find split: list.splits)


text \<open>
  C5: a table built by \<open>preparePaths\<close> is ordered by non-increasing length of the
  stripped alias. The scanner records, for each statement found and in the order found,
  the first rule in table order whose regular expression accepts the import path, and
  records nothing for a statement whose path no rule accepts: the recorded entries are
  exactly those the first accepting rule gives, every recorded entry names a rule that
  accepts its path while no rule before it in the table does, and a path that no rule
  accepts occurs in no entry. With the aliases \<^verbatim>\<open>@app/*\<close> and \<^verbatim>\<open>@app/core/*\<close> the table
  has the rule of \<^verbatim>\<open>@app/core/*\<close> first, and an import of \<^verbatim>\<open>@app/core/widgets/x\<close>, which
  the rule of \<^verbatim>\<open>@app/*\<close> accepts too, is recorded with the rule of \<^verbatim>\<open>@app/core/*\<close>.
\<close>

theorem table_longest_alias_first_and_first_rule_wins:
  assumes "preparePaths engine tsconfig excludedPaths = Inr t"
  shows "sorted_wrt (\<lambda>a b. length (aliasPrefix b) \<le> length (aliasPrefix a)) t \<and>
    callback engine t m p =
      map_option
        (\<lambda>r. \<lparr>match = m, matchAlias = aliasPrefix r, importPath = p, aliasPath = path r\<rparr>)
        (find (\<lambda>r. test engine (aliasRegex r) p) t) \<and>
    collect_matches engine t targetFileContent =
      List.map_filter
        (\<lambda>(m, p). map_option
           (\<lambda>r. \<lparr>match = m, matchAlias = aliasPrefix r, importPath = p, aliasPath = path r\<rparr>)
           (find (\<lambda>r. test engine (aliasRegex r) p) t))
        (found_statements targetFileContent) \<and>
    (\<forall>x\<in>set (collect_matches engine t targetFileContent).
       \<exists>pre r post. t = pre @ r # post \<and>
         (\<forall>r'\<in>set pre. \<not> test engine (aliasRegex r') (importPath x)) \<and>
         test engine (aliasRegex r) (importPath x) \<and>
         matchAlias x = aliasPrefix r \<and> aliasPath x = path r) \<and>
    ((\<forall>r\<in>set t. \<not> test engine (aliasRegex r) p) \<longrightarrow>
       (\<forall>x\<in>set (collect_matches engine t targetFileContent). importPath x \<noteq> p)) \<and>
    preparePaths engine config_app_core [] = Inr [app_core_rule, app_rule] \<and>
    test engine (aliasRegex app_rule) ''@app/core/widgets/x'' \<and>
    callback engine [app_core_rule, app_rule] m' ''@app/core/widgets/x'' =
      Some \<lparr>match = m', matchAlias = ''@app/core'', importPath = ''@app/core/widgets/x'',
            aliasPath = ''src/app/core''\<rparr> \<and>
    collect_matches engine [app_core_rule, app_rule] (import_stmt ''w'' ''@app/core/widgets/x'') =
      [\<lparr>match = import_stmt ''w'' ''@app/core/widgets/x'', matchAlias = ''@app/core'',
        importPath = ''@app/core/widgets/x'', aliasPath = ''src/app/core''\<rparr>]"
proof -
  from assms obtain rs where "t = sort_rules rs"
    by (auto dest: preparePaths_Inr)
  then have 1: "sorted_wrt (\<lambda>a b. length (aliasPrefix b) \<le> length (aliasPrefix a)) t"
    by (simp add: sorted_sort_rules)
  have 2: "(\<forall>r\<in>set t. \<not> test engine (aliasRegex r) p) \<longrightarrow>
       (\<forall>x\<in>set (collect_matches engine t targetFileContent). importPath x \<noteq> p)"
    using collect_matches_accepted by blast
  have 3: "preparePaths engine config_app_core [] = Inr [app_core_rule, app_rule]"
    by code_simp
  have 4: "test engine (aliasRegex app_rule) ''@app/core/widgets/x''"
    by code_simp
  have 5: "test engine (aliasRegex app_core_rule) ''@app/core/widgets/x''"
    by code_simp
  have 6: "callback engine [app_core_rule, app_rule] m' ''@app/core/widgets/x'' =
      Some \<lparr>match = m', matchAlias = ''@app/core'', importPath = ''@app/core/widgets/x'',
            aliasPath = ''src/app/core''\<rparr>"
    using 5 by (simp add: app_core_rule_def)
  have 7: "collect_matches engine [app_core_rule, app_rule]
      (import_stmt ''w'' ''@app/core/widgets/x'') =
      [\<lparr>match = import_stmt ''w'' ''@app/core/widgets/x'', matchAlias = ''@app/core'',
        importPath = ''@app/core/widgets/x'', aliasPath = ''src/app/core''\<rparr>]"
    by code_simp
  have 8: "\<forall>x\<in>set (collect_matches engine t targetFileContent).
       \<exists>pre r post. t = pre @ r # post \<and>
         (\<forall>r'\<in>set pre. \<not> test engine (aliasRegex r') (importPath x)) \<and>
         test engine (aliasRegex r) (importPath x) \<and>
         matchAlias x = aliasPrefix r \<and> aliasPath x = path r"
    using collect_matches_first by blast
  note 9 = callback_find [of engine t m p]
  note 10 = collect_matches_find [of engine t targetFileContent]
  from 1 9 10 8 2 3 4 6 7 show ?thesis by (intro conjI)
qed

theorem table_longest_alias_first_and_first_rule_wins_witness:
  "preparePaths example_engine config_app_lib [] = Inr [app_core_rule, lib_rule] \<and>
   sorted_wrt (\<lambda>a b. length (aliasPrefix b) \<le> length (aliasPrefix a))
     [app_core_rule, lib_rule] \<and>
   found_statements (import_stmt ''w'' ''@app/core/x'' @ import_stmt ''l'' ''$lib/y'') =
     [(import_stmt ''w'' ''@app/core/x'', ''@app/core/x''),
      (import_stmt ''l'' ''$lib/y'', ''$lib/y'')] \<and>
   collect_matches example_engine [app_core_rule, lib_rule]
       (import_stmt ''w'' ''@app/core/x'' @ import_stmt ''l'' ''$lib/y'') =
     List.map_filter
        (\<lambda>(m, p). map_option
           (\<lambda>r. \<lparr>match = m, matchAlias = aliasPrefix r, importPath = p, aliasPath = path r\<rparr>)
           (find (\<lambda>r. test example_engine (aliasRegex r) p) [app_core_rule, lib_rule]))
        (found_statements (import_stmt ''w'' ''@app/core/x'' @ import_stmt ''l'' ''$lib/y'')) \<and>
   collect_matches example_engine [app_core_rule, lib_rule]
       (import_stmt ''w'' ''@app/core/x'' @ import_stmt ''l'' ''$lib/y'') =
     [\<lparr>match = import_stmt ''w'' ''@app/core/x'', matchAlias = ''@app/core'',
       importPath = ''@app/core/x'', aliasPath = ''src/app/core''\<rparr>]"
proof -
  have h: "preparePaths example_engine config_app_lib [] = Inr [app_core_rule, lib_rule]"
    by code_simp
  have f: "found_statements (import_stmt ''w'' ''@app/core/x'' @ import_stmt ''l'' ''$lib/y'') =
     [(import_stmt ''w'' ''@app/core/x'', ''@app/core/x''),
      (import_stmt ''l'' ''$lib/y'', ''$lib/y'')]"
    by code_simp
  have c: "collect_matches example_engine [app_core_rule, lib_rule]
       (import_stmt ''w'' ''@app/core/x'' @ import_stmt ''l'' ''$lib/y'') =
     [\<lparr>match = import_stmt ''w'' ''@app/core/x'', matchAlias = ''@app/core'',
       importPath = ''@app/core/x'', aliasPath = ''src/app/core''\<rparr>]"
    by code_simp
  note T = table_longest_alias_first_and_first_rule_wins [OF h, where targetFileContent =
      "import_stmt ''w'' ''@app/core/x'' @ import_stmt ''l'' ''$lib/y''"]
  from T have 1: "sorted_wrt (\<lambda>a b. length (aliasPrefix b) \<le> length (aliasPrefix a))
     [app_core_rule, lib_rule]" by (rule conjunct1)
  from T have 2: "collect_matches example_engine [app_core_rule, lib_rule]
       (import_stmt ''w'' ''@app/core/x'' @ import_stmt ''l'' ''$lib/y'') =
     List.map_filter
        (\<lambda>(m, p). map_option
           (\<lambda>r. \<lparr>match = m, matchAlias = aliasPrefix r, importPath = p, aliasPath = path r\<rparr>)
           (find (\<lambda>r. test example_engine (aliasRegex r) p) [app_core_rule, lib_rule]))
        (found_statements (import_stmt ''w'' ''@app/core/x'' @ import_stmt ''l'' ''$lib/y''))"
    by blast
  from h 1 f 2 c show ?thesis by (intro conjI)
qed


lemma preparePaths_entries:
  assumes "configured_paths tsconfig = Inr p" and "object_entries p = Inr es"
  shows "preparePaths engine tsconfig excludedPaths =
     (case map_result (make_rule engine)
             (filter (\<lambda>e. \<not> (\<exists>x\<in>set excludedPaths. sublist x (fst e))) es) of
        Inl e \<Rightarrow> Inl e
      | Inr rs \<Rightarrow> Inr (sort_rules rs))"
  using assms by (simp add: preparePaths_def shouldSkipAlias_iff)

text \<open>
  C6: the table holds one rule for each alias that contains no entry of the exclusion
  list as a substring, and no rule for any other alias: the rules of the table are,
  up to their order, the rules built from exactly those entries, and \<open>preparePaths\<close>
  is the sorted list of the rules of those entries (or the first error building one of
  them), so an alias that contains an exclusion entry takes no part in the result. With
  the alias \<^verbatim>\<open>@app/*\<close> and the exclusion list \<^verbatim>\<open>["app"]\<close> the table is empty.
\<close>

theorem alias_dropped_iff_contains_exclusion:
  assumes "configured_paths tsconfig = Inr p" and "object_entries p = Inr es"
    and "preparePaths engine tsconfig excludedPaths = Inr t"
  shows "(\<exists>rs. map_result (make_rule engine)
                (filter (\<lambda>e. \<not> (\<exists>x\<in>set excludedPaths. sublist x (fst e))) es) = Inr rs \<and>
              mset t = mset rs) \<and>
         preparePaths engine tsconfig excludedPaths =
           (case map_result (make_rule engine)
                   (filter (\<lambda>e. \<not> (\<exists>x\<in>set excludedPaths. sublist x (fst e))) es) of
              Inl e \<Rightarrow> Inl e
            | Inr rs \<Rightarrow> Inr (sort_rules rs)) \<and>
         preparePaths engine config_app [''app''] = Inr []"
proof -
  from assms obtain rs where
    "map_result (make_rule engine) (filter (\<lambda>e. \<not> shouldSkipAlias excludedPaths (fst e)) es) = Inr rs"
    "t = sort_rules rs"
    by (auto dest!: preparePaths_Inr)
  then have "map_result (make_rule engine)
                (filter (\<lambda>e. \<not> (\<exists>x\<in>set excludedPaths. sublist x (fst e))) es) = Inr rs \<and>
              mset t = mset rs"
    by (simp add: shouldSkipAlias_iff mset_sort_rules)
  moreover have "preparePaths engine config_app [''app''] = Inr []"
    by code_simp
  moreover note preparePaths_entries [OF assms(1,2), of engine excludedPaths]
  ultimately show ?thesis by blast
qed

theorem alias_dropped_iff_contains_exclusion_witness:
  "configured_paths config_app_lib =
     Inr (Some (JObj [(''$lib/*'', JArr [JStr ''src/lib'']),
                      (''@app/core/*'', JArr [JStr ''src/app/core''])])) \<and>
   preparePaths example_engine config_app_lib [''core''] = Inr [lib_rule] \<and>
   map_result (make_rule example_engine)
     (filter (\<lambda>e. \<not> (\<exists>x\<in>set [''core'']. sublist x (fst e)))
        [(''$lib/*'', JArr [JStr ''src/lib'']),
         (''@app/core/*'', JArr [JStr ''src/app/core''])])
     = Inr [lib_rule]"
proof -
  have 1: "configured_paths config_app_lib =
     Inr (Some (JObj [(''$lib/*'', JArr [JStr ''src/lib'']),
                      (''@app/core/*'', JArr [JStr ''src/app/core''])]))"
    by code_simp
  have 2: "object_entries (Some (JObj [(''$lib/*'', JArr [JStr ''src/lib'']),
              (''@app/core/*'', JArr [JStr ''src/app/core''])])) =
            Inr [(''$lib/*'', JArr [JStr ''src/lib'']),
              (''@app/core/*'', JArr [JStr ''src/app/core''])]"
    by simp
  have 3: "preparePaths example_engine config_app_lib [''core''] = Inr [lib_rule]"
    by code_simp
  from alias_dropped_iff_contains_exclusion [OF 1 2 3] obtain rs where
    "map_result (make_rule example_engine)
     (filter (\<lambda>e. \<not> (\<exists>x\<in>set [''core'']. sublist x (fst e)))
        [(''$lib/*'', JArr [JStr ''src/lib'']),
         (''@app/core/*'', JArr [JStr ''src/app/core''])])
     = Inr rs" "mset [lib_rule] = mset rs"
    by blast
  then show ?thesis using 1 3 by (cases rs) (auto split: if_splits)
qed


text \<open>
  C10: the alias \<^verbatim>\<open>@a.b/*\<close> contains a dot; the source of its regular expression is
  \<^verbatim>\<open>^@a.b/.*$\<close>, where only the asterisk was translated and the dot is not escaped; the
  compiled matcher reads the dot as "any character" and accepts \<^verbatim>\<open>@aXb/y\<close>, which the
  alias read as a glob does not denote.
\<close>

theorem alias_dot_is_regex_operator:
  "CHR ''.'' \<in> set ''@a.b/*'' \<and>
   ''^'' @ replace_stars ''@a.b/*'' @ ''$'' = ''^@a.b/.*$'' \<and>
   preparePaths engine config_dot [] =
     Inr [\<lparr>aliasRegex = Fragment ([Bol] @ lit ''@a'' @ [Term False Dot One] @ lit ''b/'' @
                         [Term False Dot Star, Eol]),
           aliasPrefix = ''@a.b'', path = ''src/ab''\<rparr>] \<and>
   test engine
     (Fragment ([Bol] @ lit ''@a'' @ [Term False Dot One] @ lit ''b/'' @
                [Term False Dot Star, Eol]))
     ''@aXb/y'' \<and>
   \<not> spec_glob_denotes ''@a.b/*'' ''@aXb/y''"
  by code_simp

section \<open>Properties of replaceImports\<close>

lemma loop_append:
  "replaceImports_loop dry engine cwd paths (xs @ ys) fs n =
     (case replaceImports_loop dry engine cwd paths xs fs n of
        (fs1, Inl e) \<Rightarrow> (fs1, Inl e)
      | (fs1, Inr k) \<Rightarrow> replaceImports_loop dry engine cwd paths ys fs1 k)"
  by (induction xs arbitrary: fs n) (auto split: sum.splits prod.splits)

text \<open>
  C3, as the claim states it, fails: with the unreadable \<^verbatim>\<open>a.ts\<close> before \<^verbatim>\<open>b.ts\<close> in
  the list, \<open>replaceImports\<close> ends with the read error of \<^verbatim>\<open>a.ts\<close> and leaves \<^verbatim>\<open>b.ts\<close>
  as it was, although \<^verbatim>\<open>b.ts\<close> alone is rewritten.
\<close>

theorem unreadable_file_aborts_batch:
  "snd (replaceImports False example_engine ''/proj'' fs_three [''a.ts'', ''b.ts''] [app_rule])
     = Inl (ReadError ''a.ts'') \<and>
   content (fst (replaceImports False example_engine ''/proj'' fs_three [''a.ts'', ''b.ts''] [app_rule]))
     ''b.ts'' = Some (import_stmt ''b'' ''@app/b'') \<and>
   content (fst (replaceImports False example_engine ''/proj'' fs_three [''b.ts''] [app_rule])) ''b.ts''
     = Some (import_stmt ''b'' ''src/app/b'')"
  by code_simp

text \<open>
  C3, amended: nothing catches the error of a file that cannot be read. When the files
  before it are processed without error, \<open>replaceImports\<close> ends at the unreadable
  file with its read error, in the state those earlier files left: they are rewritten,
  the unreadable file and every file after it are neither scanned nor rewritten. An
  empty file list gives the count zero, no error and an unchanged file system.
\<close>

theorem replaceImports_stops_at_unreadable_file:
  assumes "replaceImports dry engine cwd fs pre paths = (fs1, Inr n)" and "content fs1 bad = None"
  shows "replaceImports dry engine cwd fs (pre @ bad # post) paths = (fs1, Inl (ReadError bad)) \<and>
         replaceImports dry engine cwd fs [] paths = (fs, Inr 0)"
  using assms
  by (simp add: replaceImports_def loop_append findMatches_def readFileSync_def)

theorem replaceImports_stops_at_unreadable_file_witness:
  "snd (replaceImports False example_engine ''/proj'' fs_three [''c.ts''] [app_rule]) = Inr 1 \<and>
   content (fst (replaceImports False example_engine ''/proj'' fs_three [''c.ts''] [app_rule])) ''a.ts'' = None \<and>
   replaceImports False example_engine ''/proj'' fs_three ([''c.ts''] @ ''a.ts'' # [''b.ts'']) [app_rule] =
     (fst (replaceImports False example_engine ''/proj'' fs_three [''c.ts''] [app_rule]),
      Inl (ReadError ''a.ts'')) \<and>
   content (fst (replaceImports False example_engine ''/proj'' fs_three [''c.ts''] [app_rule])) ''c.ts''
     = Some (import_stmt ''c'' ''src/app/c'') \<and>
   content (fst (replaceImports False example_engine ''/proj'' fs_three [''c.ts''] [app_rule])) ''b.ts''
     = Some (import_stmt ''b'' ''@app/b'')"
proof -
  have 1: "snd (replaceImports False example_engine ''/proj'' fs_three [''c.ts''] [app_rule]) = Inr 1"
    by code_simp
  have 2: "content (fst (replaceImports False example_engine ''/proj'' fs_three [''c.ts''] [app_rule]))
      ''a.ts'' = None"
    by code_simp
  have 3: "content (fst (replaceImports False example_engine ''/proj'' fs_three [''c.ts''] [app_rule])) ''c.ts''
     = Some (import_stmt ''c'' ''src/app/c'')"
    by code_simp
  have 4: "content (fst (replaceImports False example_engine ''/proj'' fs_three [''c.ts''] [app_rule])) ''b.ts''
     = Some (import_stmt ''b'' ''@app/b'')"
    by code_simp
  have 5: "replaceImports False example_engine ''/proj'' fs_three [''c.ts''] [app_rule] =
     (fst (replaceImports False example_engine ''/proj'' fs_three [''c.ts''] [app_rule]), Inr 1)"
    using 1 by (metis prod.collapse)
  show ?thesis
    using 1 2 3 4 replaceImports_stops_at_unreadable_file [OF 5 2, of "[''b.ts'']"]
    by simp
qed

lemma map_filter_Nil: "List.map_filter f xs = [] \<longleftrightarrow> (\<forall>x\<in>set xs. f x = None)"
  by (induction xs) (auto simp: map_filter_simps split: option.splits)

lemma callback_None: "callback engine t m p = None \<longleftrightarrow> (\<forall>r\<in>set t. \<not> test engine (aliasRegex r) p)"
  by (induction t) auto

lemma collect_matches_Nil:
  assumes "\<forall>p\<in>set (imported_paths text). \<forall>r\<in>set paths. \<not> test engine (aliasRegex r) p"
  shows "collect_matches engine paths text = []"
  unfolding collect_matches_def map_filter_Nil
proof
  fix x assume x: "x \<in> set (exec_all importRegex 0 text)"
  obtain m caps where mc: "x = (m, caps)" by (cases x)
  show "(case x of (m, caps) \<Rightarrow> case caps of [] \<Rightarrow> None | p # _ \<Rightarrow> callback engine paths m p) = None"
  proof (cases caps)
    case Nil
    with mc show ?thesis by simp
  next
    case (Cons p ps)
    with x mc have "p \<in> set (imported_paths text)"
      unfolding imported_paths_def map_filter_set by force
    with assms have "callback engine paths m p = None"
      by (simp add: callback_None)
    with mc Cons show ?thesis by simp
  qed
qed

lemma loop_no_matches:
  assumes "\<forall>file\<in>set files. \<exists>text. content fs file = Some text \<and> collect_matches engine paths text = []"
  shows "replaceImports_loop dry engine cwd paths files fs n = (fs, Inr n)"
  using assms
  by (induction files) (auto simp: findMatches_def readFileSync_def)

section \<open>Properties of replaceAliases\<close>

lemma split_first_leftmost:
  "split_first pat s = Some (b, a) \<Longrightarrow> s = b' @ pat @ a' \<Longrightarrow> length b \<le> length b'"
proof (induction s arbitrary: b b')
  case Nil
  then show ?case by (simp split: if_splits)
next
  case (Cons c cs)
  show ?case
  proof (cases "prefix pat (c # cs)")
    case True
    with Cons.prems(1) have "b = []" by simp
    then show ?thesis by simp
  next
    case False
    with Cons.prems(1) obtain b0 where b0: "split_first pat cs = Some (b0, a)" "b = c # b0"
      by auto
    from False Cons.prems(2) have "b' \<noteq> []"
      by (auto simp: prefix_def)
    then obtain b1 where b1: "b' = c # b1" using Cons.prems(2) by (cases b') auto
    with Cons.prems(2) have "cs = b1 @ pat @ a'" by simp
    from Cons.IH [OF b0(1) this] b0 b1 show ?thesis by simp
  qed
qed

lemma split_first_None: "split_first pat s = None \<longleftrightarrow> \<not> sublist pat s"
  using includes_str_sublist [of s pat] by (cases "split_first pat s") (auto simp: includes_str_def)

lemma split_first_prefix: "prefix pat s \<Longrightarrow> split_first pat s = Some ([], drop (length pat) s)"
  by (cases s) auto

lemma replace_str_empty:
  "replace_str s pat [] = (case split_first pat s of None \<Rightarrow> s | Some (b, a) \<Rightarrow> b @ a)"
  by (simp add: replace_str_def split: option.splits)

lemma replace_stars_plain: "CHR ''*'' \<notin> set P \<Longrightarrow> replace_stars P = P"
  by (induction P) (auto simp: replace_stars_def)

lemma replace_stars_append: "replace_stars (xs @ ys) = replace_stars xs @ replace_stars ys"
  by (simp add: replace_stars_def)

lemma not_syntax_char:
  "\<not> is_syntax_char c \<Longrightarrow> c \<noteq> CHR ''*'' \<and> c \<noteq> CHR ''.'' \<and> parse_atom c = Some (Chr c)"
  by (auto simp: is_syntax_char_def parse_atom_def)

lemma parse_terms_plain:
  "\<forall>c\<in>set P. \<not> is_syntax_char c \<Longrightarrow> d \<noteq> CHR ''*'' \<Longrightarrow>
   parse_terms (P @ d # cs) = map_option ((@) (lit P)) (parse_terms (d # cs))"
proof (induction P)
  case Nil
  then show ?case by (simp add: lit_def option.map_ident)
next
  case (Cons c P)
  then have c: "parse_atom c = Some (Chr c)" by (simp add: not_syntax_char)
  have "hd (P @ d # cs) \<noteq> CHR ''*''"
    using Cons.prems by (cases P) (auto dest: not_syntax_char)
  then obtain e es where e: "P @ d # cs = e # es" "e \<noteq> CHR ''*''"
    by (cases "P @ d # cs") auto
  have "parse_terms ((c # P) @ d # cs) = map_option ((#) (Term False (Chr c) One)) (parse_terms (P @ d # cs))"
    using c e by simp
  also have "\<dots> = map_option ((@) (lit (c # P))) (parse_terms (d # cs))"
    using Cons by (cases "parse_terms (d # cs)") (simp_all add: lit_def)
  finally show ?case .
qed

lemma bt_Chr_One:
  "bt (Term cap (Chr c) One # ns) pos s =
     (case s of [] \<Rightarrow> None
      | d # ds \<Rightarrow> if d = c then map_option (\<lambda>(ps, r). ([d] # ps, r)) (bt ns (Suc pos) ds) else None)"
  by (cases s) (auto simp: run_length_def split: option.splits)

lemma bt_lit_prefix: "bt (lit Q @ ns) pos s \<noteq> None \<Longrightarrow> prefix Q s"
proof (induction Q arbitrary: pos s)
  case Nil
  then show ?case by simp
next
  case (Cons c Q)
  then show ?case
    by (cases s) (auto simp: lit_def bt_Chr_One simp del: bt.simps split: if_splits)
qed

lemma accepts_Bol_lit: "accepts (Bol # lit Q @ ns) p \<Longrightarrow> prefix Q p"
proof -
  assume "accepts (Bol # lit Q @ ns) p"
  then obtain i where "bt (Bol # lit Q @ ns) i (drop i p) \<noteq> None"
    unfolding accepts_def list_ex_iff by blast
  then have "bt (lit Q @ ns) 0 p \<noteq> None"
    by (cases "i = 0") auto
  then show ?thesis by (rule bt_lit_prefix)
qed

lemma split_first_trailing:
  "CHR ''*'' \<notin> set P \<Longrightarrow> split_first ''/*'' (P @ ''/*'') = Some (P, [])"
  by (induction P) (auto simp: prefix_def)

lemma make_rule_plain:
  assumes "\<forall>c\<in>set P. \<not> is_syntax_char c" and "make_rule engine (P @ ''/*'', v) = Inr r"
  shows "aliasPrefix r = P \<and>
         aliasRegex r = Fragment (Bol # lit (P @ ''/'') @ [Term False Dot Star, Eol])"
proof -
  from assms(1) have star: "CHR ''*'' \<notin> set P"
    by (auto dest: not_syntax_char)
  have "replace_stars (P @ ''/*'') = P @ ''/.*''"
    using star by (simp add: replace_stars_append replace_stars_plain) (simp add: replace_stars_def)
  then have "parse_source (''^'' @ replace_stars (P @ ''/*'') @ ''$'')
      = map_option ((#) Bol) (parse_terms (P @ CHR ''/'' # ''.*$''))"
    by (simp add: parse_source_def)
  also have "\<dots> = map_option ((#) Bol) (map_option ((@) (lit P)) (parse_terms (CHR ''/'' # ''.*$'')))"
    using assms(1) by (subst parse_terms_plain) auto
  also have "\<dots> = Some (Bol # lit (P @ ''/'') @ [Term False Dot Star, Eol])"
    by (simp add: lit_def parse_atom_def is_syntax_char_def)
  finally have "RegExp engine (''^'' @ replace_stars (P @ ''/*'') @ ''$'')
      = Inr (Fragment (Bol # lit (P @ ''/'') @ [Term False Dot Star, Eol]))"
    by (simp add: RegExp_def)
  with assms(2) show ?thesis
    by (auto simp: make_rule_def replace_str_empty split_first_trailing [OF star]
        split: sum.splits option.splits json.splits)
qed

lemma test_plain_prefix:
  assumes "\<forall>c\<in>set P. \<not> is_syntax_char c" and "make_rule engine (P @ ''/*'', v) = Inr r"
    and "test engine (aliasRegex r) p"
  shows "prefix (P @ ''/'') p"
proof -
  from make_rule_plain [OF assms(1,2)]
  have "aliasRegex r = Fragment (Bol # lit (P @ ''/'') @ [Term False Dot Star, Eol])"
    by blast
  with assms(3) have "accepts (Bol # lit (P @ ''/'') @ [Term False Dot Star, Eol]) p"
    by (simp add: test_def)
  then show ?thesis by (rule accepts_Bol_lit)
qed

text \<open>
  C7, as the claim states it, fails: the rule of the alias \<^verbatim>\<open>@lib/*/src\<close> has the
  stripped alias \<^verbatim>\<open>@lib/src\<close> and accepts the import path \<^verbatim>\<open>@lib/a/@lib/src\<close>, which
  does not begin with the stripped alias; the suffix computed is \<^verbatim>\<open>@lib/a/\<close>, so an
  occurrence later in the literal has been removed.
\<close>

theorem suffix_removal_not_front_anchored:
  "preparePaths example_engine config_mid [] = Inr [mid_rule] \<and>
   collect_matches example_engine [mid_rule] (import_stmt ''x'' ''@lib/a/@lib/src'') =
     [\<lparr>match = import_stmt ''x'' ''@lib/a/@lib/src'', matchAlias = ''@lib/src'',
       importPath = ''@lib/a/@lib/src'', aliasPath = ''packages/src''\<rparr>] \<and>
   relativePathToAliasPath
     \<lparr>match = import_stmt ''x'' ''@lib/a/@lib/src'', matchAlias = ''@lib/src'',
       importPath = ''@lib/a/@lib/src'', aliasPath = ''packages/src''\<rparr> = ''@lib/a/'' \<and>
   \<not> prefix ''@lib/src'' ''@lib/a/@lib/src''"
  by code_simp

text \<open>
  C7, amended: the suffix is the import path with the leftmost occurrence of the
  stripped alias removed, and no more than that one occurrence; without an occurrence
  the suffix is the import path. Where the import path begins with the stripped alias
  this is the removal of that prefix, and that is the case for every import path that
  a rule accepts whose alias is a prefix without regular-expression syntax characters
  followed by \<^verbatim>\<open>/*\<close>.
\<close>

theorem suffix_removes_leftmost_occurrence:
  "(\<not> sublist (matchAlias m) (importPath m) \<longrightarrow> relativePathToAliasPath m = importPath m) \<and>
   (sublist (matchAlias m) (importPath m) \<longrightarrow>
      (\<exists>b a. importPath m = b @ matchAlias m @ a \<and> relativePathToAliasPath m = b @ a \<and>
         (\<forall>b' a'. importPath m = b' @ matchAlias m @ a' \<longrightarrow> length b \<le> length b'))) \<and>
   (prefix (matchAlias m) (importPath m) \<longrightarrow>
      relativePathToAliasPath m = drop (length (matchAlias m)) (importPath m)) \<and>
   ((\<forall>c\<in>set P. \<not> is_syntax_char c) \<and> make_rule engine (P @ ''/*'', v) = Inr r \<and>
      test engine (aliasRegex r) p \<longrightarrow>
      aliasPrefix r = P \<and> prefix P p \<and> replace_str p (aliasPrefix r) [] = drop (length P) p)"
proof -
  have 1: "\<not> sublist (matchAlias m) (importPath m) \<longrightarrow> relativePathToAliasPath m = importPath m"
    by (simp add: relativePathToAliasPath_def replace_str_empty split_first_None [symmetric])
  have 2: "sublist (matchAlias m) (importPath m) \<longrightarrow>
      (\<exists>b a. importPath m = b @ matchAlias m @ a \<and> relativePathToAliasPath m = b @ a \<and>
         (\<forall>b' a'. importPath m = b' @ matchAlias m @ a' \<longrightarrow> length b \<le> length b'))"
  proof
    assume "sublist (matchAlias m) (importPath m)"
    then obtain b a where ba: "split_first (matchAlias m) (importPath m) = Some (b, a)"
      using split_first_None [of "matchAlias m" "importPath m"] by auto
    then have "importPath m = b @ matchAlias m @ a" by (rule split_first_sound)
    moreover have "relativePathToAliasPath m = b @ a"
      using ba by (simp add: relativePathToAliasPath_def replace_str_empty)
    moreover have "\<forall>b' a'. importPath m = b' @ matchAlias m @ a' \<longrightarrow> length b \<le> length b'"
      using split_first_leftmost [OF ba] by blast
    ultimately show "\<exists>b a. importPath m = b @ matchAlias m @ a \<and> relativePathToAliasPath m = b @ a \<and>
         (\<forall>b' a'. importPath m = b' @ matchAlias m @ a' \<longrightarrow> length b \<le> length b')"
      by blast
  qed
  have 3: "prefix (matchAlias m) (importPath m) \<longrightarrow>
      relativePathToAliasPath m = drop (length (matchAlias m)) (importPath m)"
    by (simp add: relativePathToAliasPath_def replace_str_empty split_first_prefix)
  have 4: "(\<forall>c\<in>set P. \<not> is_syntax_char c) \<and> make_rule engine (P @ ''/*'', v) = Inr r \<and>
      test engine (aliasRegex r) p \<longrightarrow>
      aliasPrefix r = P \<and> prefix P p \<and> replace_str p (aliasPrefix r) [] = drop (length P) p"
  proof
    assume a: "(\<forall>c\<in>set P. \<not> is_syntax_char c) \<and> make_rule engine (P @ ''/*'', v) = Inr r \<and>
      test engine (aliasRegex r) p"
    then have r: "aliasPrefix r = P"
      using make_rule_plain by blast
    from a have "prefix (P @ ''/'') p" using test_plain_prefix by blast
    then have "prefix P p" by (metis append_prefixD)
    then show "aliasPrefix r = P \<and> prefix P p \<and> replace_str p (aliasPrefix r) [] = drop (length P) p"
      using r by (simp add: replace_str_empty split_first_prefix)
  qed
  show ?thesis using 1 2 3 4 by blast
qed


theorem suffix_removes_leftmost_occurrence_witness:
  "prefix ''@app'' ''@app/x'' \<and>
   \<not> list_ex is_syntax_char ''@app'' \<and>
   make_rule example_engine (''@app'' @ ''/*'', JArr [JStr ''src/app'']) = Inr app_rule \<and>
   test example_engine (aliasRegex app_rule) ''@app/x'' \<and>
   relativePathToAliasPath
     \<lparr>match = import_stmt ''x'' ''@app/x'', matchAlias = ''@app'', importPath = ''@app/x'',
      aliasPath = ''src/app''\<rparr> = ''/x'' \<and>
   replace_str ''@app/x'' (aliasPrefix app_rule) [] = ''/x''"
proof -
  define m where "m = \<lparr>match = import_stmt ''x'' ''@app/x'', matchAlias = ''@app'',
      importPath = ''@app/x'', aliasPath = ''src/app''\<rparr>"
  have 1: "prefix (matchAlias m) (importPath m)" by (simp add: m_def)
  have 2: "\<forall>c\<in>set ''@app''. \<not> is_syntax_char c" by (simp add: is_syntax_char_def)
  have 3: "make_rule example_engine (''@app'' @ ''/*'', JArr [JStr ''src/app'']) = Inr app_rule" by code_simp
  have 4: "test example_engine (aliasRegex app_rule) ''@app/x''" by code_simp
  note T = suffix_removes_leftmost_occurrence
        [where m = m and P = "''@app''" and v = "JArr [JStr ''src/app'']" and r = app_rule
           and p = "''@app/x''" and engine = example_engine]
  from T 1 have 5: "relativePathToAliasPath m = drop (length (matchAlias m)) (importPath m)"
    by blast
  from T 2 3 4 have 6: "replace_str ''@app/x'' (aliasPrefix app_rule) [] =
      drop (length ''@app'') ''@app/x''"
    by blast
  from 5 have 7: "relativePathToAliasPath m = ''/x''" by (simp add: m_def)
  from 6 have 8: "replace_str ''@app/x'' (aliasPrefix app_rule) [] = ''/x''" by simp
  from 1 have 9: "prefix ''@app'' ''@app/x''" by (simp add: m_def)
  from 2 have 10: "\<not> list_ex is_syntax_char ''@app''" by (simp add: list_ex_iff)
  show ?thesis using 3 4 7 8 9 10 unfolding m_def by blast
qed

text \<open>
  C1 at a failing input: with the alias \<^verbatim>\<open>utils\<close> and the statement
  \<^verbatim>\<open>import utils from 'utils';\<close> in \<^verbatim>\<open>src/pages/home.ts\<close>, the import path is replaced at
  its leftmost occurrence in the statement, which is the binding: the file becomes
  \<^verbatim>\<open>import ../utils from 'utils';\<close>, the bindings clause changed and the literal not.
\<close>

theorem replaceAliases_rewrites_binding:
  "preparePaths engine config_utils [] = Inr [utils_rule] \<and>
   collect_matches engine [utils_rule] (import_stmt ''utils'' ''utils'') =
     [\<lparr>match = import_stmt ''utils'' ''utils'', matchAlias = ''utils'',
       importPath = ''utils'', aliasPath = ''src/utils''\<rparr>] \<and>
   replaceAliases ''/proj'' (collect_matches engine [utils_rule] (import_stmt ''utils'' ''utils''))
     (import_stmt ''utils'' ''utils'') ''src/pages/home.ts'' = import_stmt ''../utils'' ''utils''"
  by code_simp

text \<open>
  C2 at a failing input: with the alias \<^verbatim>\<open>@components/*\<close> for \<^verbatim>\<open>src/components\<close>, the import
  of \<^verbatim>\<open>@components/button\<close> becomes \<^verbatim>\<open>../components/button\<close> in \<^verbatim>\<open>src/pages/home.tsx\<close>, but
  \<^verbatim>\<open>components/button\<close> in \<^verbatim>\<open>src/app.tsx\<close> and \<^verbatim>\<open>/button\<close> in \<^verbatim>\<open>src/components/index.ts\<close>:
  no \<^verbatim>\<open>./\<close> is put before a joined path that does not start with a dot.
\<close>

theorem replaceAliases_no_dot_slash_prefix:
  "preparePaths engine config_components [] = Inr [components_rule] \<and>
   replaceAliases ''/proj''
     (collect_matches engine [components_rule] (import_stmt ''b'' ''@components/button''))
     (import_stmt ''b'' ''@components/button'') ''src/pages/home.tsx''
       = import_stmt ''b'' ''../components/button'' \<and>
   replaceAliases ''/proj''
     (collect_matches engine [components_rule] (import_stmt ''b'' ''@components/button''))
     (import_stmt ''b'' ''@components/button'') ''src/app.tsx''
       = import_stmt ''b'' ''components/button'' \<and>
   replaceAliases ''/proj''
     (collect_matches engine [components_rule] (import_stmt ''b'' ''@components/button''))
     (import_stmt ''b'' ''@components/button'') ''src/components/index.ts''
       = import_stmt ''b'' ''/button''"
  by code_simp

section \<open>Files without alias imports\<close>

lemma loop_clean_step:
  assumes "content fs1 file = Some text" and "collect_matches engine paths text = []"
  shows "replaceImports_loop dry engine cwd paths (file # post) fs1 n =
         replaceImports_loop dry engine cwd paths post fs1 n"
  using assms by (simp add: findMatches_def readFileSync_def)

lemma loop_preserves_clean:
  assumes "collect_matches engine paths text = []"
  shows "content fs file = Some text \<Longrightarrow>
         content (fst (replaceImports_loop dry engine cwd paths files fs n)) file = Some text"
proof (induction files arbitrary: fs n)
  case Nil
  then show ?case by simp
next
  case (Cons f files)
  show ?case
  proof (cases "content fs f")
    case None
    with Cons.prems show ?thesis by (simp add: findMatches_def readFileSync_def)
  next
    case (Some c)
    show ?thesis
    proof (cases "collect_matches engine paths c = []")
      case True
      with Some Cons show ?thesis by (simp add: findMatches_def readFileSync_def)
    next
      case False
      with Some assms Cons.prems have ne: "f \<noteq> file" by auto
      show ?thesis
      proof (cases "dry \<or> \<not> writable fs f")
        case True
        with Some False Cons show ?thesis
          by (auto simp: findMatches_def readFileSync_def writeResultToFile_def writeFileSync_def)
      next
        case False2: False
        let ?fs' = "fs\<lparr>content := (content fs)(f \<mapsto>
            replaceAliases cwd (collect_matches engine paths c) c f)\<rparr>"
        from ne Cons.prems have "content ?fs' file = Some text" by simp
        from Cons.IH [OF this] Some False False2 show ?thesis
          by (simp add: findMatches_def readFileSync_def writeResultToFile_def writeFileSync_def)
      qed
    qed
  qed
qed

lemma relative_not_accepted:
  assumes "\<forall>c\<in>set P. \<not> is_syntax_char c" and "make_rule engine (P @ ''/*'', v) = Inr r"
    and "prefix ''./'' p \<or> prefix ''../'' p"
  shows "\<not> test engine (aliasRegex r) p"
proof
  assume "test engine (aliasRegex r) p"
  with assms(1,2) have "prefix (P @ ''/'') p" by (rule test_plain_prefix)
  moreover from assms(3) obtain p' where "p = CHR ''.'' # p'"
    by (auto simp: prefix_def)
  ultimately have "hd (P @ ''/'') = CHR ''.''"
    by (cases P) (auto simp: prefix_def)
  with assms(1) show False
    by (cases P) (auto dest: not_syntax_char)
qed

text \<open>
  C9: a file is taken at the moment the loop reaches it, in any batch and after any
  files before it. When it is readable and no import path found in it is accepted by a
  rule of the table, \<open>findMatches\<close> returns no match and the original text, rewriting the
  text with its matches gives the text back, and the loop goes on to the next file with
  the file system and the count as they were: the file is not written, in dry mode or
  not, writable or not. At the end of any batch run from that state the file still has
  its text. A batch of such files alone gives the count zero and the file system
  unchanged. A relative import path, one beginning with \<^verbatim>\<open>./\<close> or \<^verbatim>\<open>../\<close>, is accepted by no
  rule whose alias is a prefix without regular-expression syntax characters followed
  by \<^verbatim>\<open>/*\<close>.
\<close>

theorem file_without_alias_import_is_skipped:
  assumes "content fs1 file = Some text"
    and "\<forall>p\<in>set (imported_paths text). \<forall>r\<in>set paths. \<not> test engine (aliasRegex r) p"
  shows "findMatches engine fs1 file paths = Inr ([], text) \<and>
    replaceAliases cwd (collect_matches engine paths text) text file = text \<and>
    replaceImports_loop dry engine cwd paths (file # post) fs1 n =
      replaceImports_loop dry engine cwd paths post fs1 n \<and>
    (replaceImports dry engine cwd fs pre paths = (fs1, Inr n) \<longrightarrow>
       replaceImports dry engine cwd fs (pre @ file # post) paths =
         replaceImports_loop dry engine cwd paths post fs1 n) \<and>
    content (fst (replaceImports dry engine cwd fs1 files paths)) file = Some text \<and>
    ((\<forall>f\<in>set files. \<exists>t. content fs1 f = Some t \<and>
          (\<forall>p\<in>set (imported_paths t). \<forall>r\<in>set paths. \<not> test engine (aliasRegex r) p)) \<longrightarrow>
       replaceImports dry engine cwd fs1 files paths = (fs1, Inr 0)) \<and>
    ((\<forall>c\<in>set P. \<not> is_syntax_char c) \<and> make_rule engine (P @ ''/*'', v) = Inr r \<and>
       (prefix ''./'' p \<or> prefix ''../'' p) \<longrightarrow> \<not> test engine (aliasRegex r) p)"
proof -
  from assms(2) have nil: "collect_matches engine paths text = []"
    by (rule collect_matches_Nil)
  have 1: "findMatches engine fs1 file paths = Inr ([], text)"
    using assms(1) nil by (simp add: findMatches_def readFileSync_def)
  have 2: "replaceAliases cwd (collect_matches engine paths text) text file = text"
    using nil by (simp add: replaceAliases_def)
  have 3: "replaceImports_loop dry engine cwd paths (file # post) fs1 n =
      replaceImports_loop dry engine cwd paths post fs1 n"
    using assms(1) nil by (rule loop_clean_step)
  have 4: "replaceImports dry engine cwd fs pre paths = (fs1, Inr n) \<longrightarrow>
       replaceImports dry engine cwd fs (pre @ file # post) paths =
         replaceImports_loop dry engine cwd paths post fs1 n"
    using 3 by (simp add: replaceImports_def loop_append)
  have 5: "content (fst (replaceImports dry engine cwd fs1 files paths)) file = Some text"
    unfolding replaceImports_def using nil assms(1) by (rule loop_preserves_clean)
  have 6: "(\<forall>f\<in>set files. \<exists>t. content fs1 f = Some t \<and>
          (\<forall>p\<in>set (imported_paths t). \<forall>r\<in>set paths. \<not> test engine (aliasRegex r) p)) \<longrightarrow>
       replaceImports dry engine cwd fs1 files paths = (fs1, Inr 0)"
  proof
    assume "\<forall>f\<in>set files. \<exists>t. content fs1 f = Some t \<and>
          (\<forall>p\<in>set (imported_paths t). \<forall>r\<in>set paths. \<not> test engine (aliasRegex r) p)"
    then have "\<forall>f\<in>set files. \<exists>t. content fs1 f = Some t \<and> collect_matches engine paths t = []"
      using collect_matches_Nil by blast
    then show "replaceImports dry engine cwd fs1 files paths = (fs1, Inr 0)"
      unfolding replaceImports_def by (rule loop_no_matches)
  qed
  have 7: "(\<forall>c\<in>set P. \<not> is_syntax_char c) \<and> make_rule engine (P @ ''/*'', v) = Inr r \<and>
       (prefix ''./'' p \<or> prefix ''../'' p) \<longrightarrow> \<not> test engine (aliasRegex r) p"
    using relative_not_accepted by blast
  from 1 2 3 4 5 6 7 show ?thesis by (intro conjI)
qed

theorem file_without_alias_import_is_skipped_witness:
  "content fs_mixed ''r.ts'' = Some (import_stmt ''{ b }'' ''./b'' @ '' b();'') \<and>
   imported_paths (import_stmt ''{ b }'' ''./b'' @ '' b();'') = [''./b''] \<and>
   \<not> test example_engine (aliasRegex app_rule) ''./b'' \<and>
   findMatches example_engine fs_mixed ''r.ts'' [app_rule] =
     Inr ([], import_stmt ''{ b }'' ''./b'' @ '' b();'') \<and>
   snd (replaceImports False example_engine ''/proj'' fs_mixed [''c.ts'', ''r.ts''] [app_rule])
     = Inr 1 \<and>
   content (fst (replaceImports False example_engine ''/proj'' fs_mixed [''c.ts'', ''r.ts'']
                   [app_rule])) ''c.ts'' = Some (import_stmt ''c'' ''src/app/c'') \<and>
   content (fst (replaceImports False example_engine ''/proj'' fs_mixed [''c.ts'', ''r.ts'']
                   [app_rule])) ''r.ts'' = Some (import_stmt ''{ b }'' ''./b'' @ '' b();'')"
proof -
  have 1: "content fs_mixed ''r.ts'' = Some (import_stmt ''{ b }'' ''./b'' @ '' b();'')"
    by (simp add: fs_mixed_def)
  have 2: "imported_paths (import_stmt ''{ b }'' ''./b'' @ '' b();'') = [''./b'']"
    by code_simp
  have 3: "\<not> test example_engine (aliasRegex app_rule) ''./b''"
    by code_simp
  have 4: "\<forall>p\<in>set (imported_paths (import_stmt ''{ b }'' ''./b'' @ '' b();'')).
             \<forall>r\<in>set [app_rule]. \<not> test example_engine (aliasRegex r) p"
    using 2 3 by simp
  have 5: "snd (replaceImports False example_engine ''/proj'' fs_mixed [''c.ts'', ''r.ts'']
      [app_rule]) = Inr 1"
    by code_simp
  have 6: "content (fst (replaceImports False example_engine ''/proj'' fs_mixed
      [''c.ts'', ''r.ts''] [app_rule])) ''c.ts'' = Some (import_stmt ''c'' ''src/app/c'')"
    by code_simp
  note T = file_without_alias_import_is_skipped [OF 1 4, where dry = False and cwd = "''/proj''"
      and files = "[''c.ts'', ''r.ts'']"]
  from T have 7: "findMatches example_engine fs_mixed ''r.ts'' [app_rule] =
     Inr ([], import_stmt ''{ b }'' ''./b'' @ '' b();'')"
    by (rule conjunct1)
  from T have 8: "content (fst (replaceImports False example_engine ''/proj'' fs_mixed
      [''c.ts'', ''r.ts''] [app_rule])) ''r.ts'' = Some (import_stmt ''{ b }'' ''./b'' @ '' b();'')"
    by blast
  from 1 2 3 7 5 6 8 show ?thesis by (intro conjI)
qed

section \<open>Properties of the import pattern\<close>

lemma run_length_iff:
  "k \<le> run_length a s \<longleftrightarrow> k \<le> length s \<and> list_all (atom_ok a) (take k s)"
proof (induction s arbitrary: k)
  case Nil
  then show ?case by (simp add: run_length_def)
next
  case (Cons x xs)
  show ?case
  proof (cases k)
    case 0
    then show ?thesis by simp
  next
    case (Suc k')
    with Cons [of k'] show ?thesis by (simp add: run_length_def)
  qed
qed

lemma candidates_iff:
  "k \<in> set (candidates a q s) \<longleftrightarrow>
     k \<le> run_length a s \<and> (case q of One \<Rightarrow> k = 1 | Star \<Rightarrow> True | Plus \<Rightarrow> 1 \<le> k)"
  by (cases q) auto

lemma first_some_Some: "first_some f ks = Some y \<Longrightarrow> \<exists>k\<in>set ks. f k = Some y"
  by (induction ks) (auto split: option.splits)

lemma first_some_None: "first_some f ks = None \<longleftrightarrow> (\<forall>k\<in>set ks. f k = None)"
  by (induction ks) (auto split: option.splits)

lemma bt_sound:
  "bt ns pos s = Some (ps, r) \<Longrightarrow> s = concat ps @ r \<and> fits ns pos ps r"
proof (induction ns arbitrary: pos s ps)
  case Nil
  then show ?case by simp
next
  case (Cons n ns)
  show ?case
  proof (cases n)
    case Bol
    with Cons.prems obtain ps' where "pos = 0" "bt ns pos s = Some (ps', r)" "ps = [] # ps'"
      by (auto split: if_splits)
    with Cons.IH [of pos s ps'] Bol show ?thesis by auto
  next
    case Eol
    with Cons.prems obtain ps' where "s = []" "bt ns pos s = Some (ps', r)" "ps = [] # ps'"
      by (auto split: if_splits)
    with Cons.IH [of pos s ps'] Eol show ?thesis by auto
  next
    case (Term cap a q)
    with Cons.prems obtain k where k: "k \<in> set (candidates a q s)"
      and "map_option (\<lambda>(ps, r). (take k s # ps, r)) (bt ns (pos + k) (drop k s)) = Some (ps, r)"
      by (auto dest: first_some_Some)
    then obtain ps' where ps': "bt ns (pos + k) (drop k s) = Some (ps', r)" "ps = take k s # ps'"
      by auto
    from k have kl: "k \<le> length s" "list_all (atom_ok a) (take k s)"
      and kq: "(case q of One \<Rightarrow> k = 1 | Star \<Rightarrow> True | Plus \<Rightarrow> 1 \<le> k)"
      by (simp_all add: candidates_iff run_length_iff)
    from kl kq have "term_ok a q (take k s)"
      by (cases q) (auto simp: term_ok_def)
    moreover from Cons.IH [OF ps'(1)] have "drop k s = concat ps' @ r" "fits ns (pos + k) ps' r"
      by simp_all
    moreover have "s = take k s @ drop k s" by simp
    moreover have "length (take k s) = k" using kl(1) by simp
    ultimately show ?thesis using Term ps'(2)
      by (simp del: append_take_drop_id)
  qed
qed

lemma bt_complete:
  "fits ns pos ps r \<Longrightarrow> bt ns pos (concat ps @ r) \<noteq> None"
proof (induction ns arbitrary: pos ps)
  case Nil
  then show ?case by simp
next
  case (Cons n ns)
  from Cons.prems obtain p ps' where ps: "ps = p # ps'" by (cases ps) auto
  show ?case
  proof (cases n)
    case Bol
    with Cons.prems ps have "p = []" "pos = 0" "fits ns pos ps' r" by auto
    with Cons.IH [of pos ps'] Bol ps show ?thesis by (cases "bt ns 0 (concat ps' @ r)") auto
  next
    case Eol
    with Cons.prems ps have "p = []" "concat ps' @ r = []" "fits ns pos ps' r" by auto
    then have e: "concat ps @ r = []" using ps by simp
    from \<open>fits ns pos ps' r\<close> have "bt ns pos (concat ps' @ r) \<noteq> None" by (rule Cons.IH)
    then have "bt ns pos [] \<noteq> None" unfolding \<open>concat ps' @ r = []\<close> .
    then show ?thesis unfolding e Eol by auto
  next
    case (Term cap a q)
    with Cons.prems ps have ok: "term_ok a q p" and f: "fits ns (pos + length p) ps' r"
      by auto
    let ?s = "concat ps @ r"
    have tk: "take (length p) ?s = p" "drop (length p) ?s = concat ps' @ r"
      using ps by simp_all
    from ok have "length p \<le> run_length a ?s"
      by (simp add: run_length_iff tk term_ok_def ps)
    moreover from ok have "case q of One \<Rightarrow> length p = 1 | Star \<Rightarrow> True | Plus \<Rightarrow> 1 \<le> length p"
      by (cases q) (auto simp: term_ok_def Suc_le_eq)
    ultimately have "length p \<in> set (candidates a q ?s)"
      unfolding candidates_iff by blast
    moreover have "bt ns (pos + length p) (drop (length p) ?s) \<noteq> None"
      unfolding tk(2) by (rule Cons.IH [OF f])
    ultimately show ?thesis
      unfolding Term bt.simps first_some_None by force
  qed
qed

lemma fits_Term:
  "fits (Term cap a q # ns) pos ps r \<longleftrightarrow>
     (\<exists>p ps'. ps = p # ps' \<and> term_ok a q p \<and> fits ns (pos + length p) ps' r)"
  by (cases ps) auto

lemma term_ok_Chr: "term_ok (Chr c) One p \<longleftrightarrow> p = [c]"
  by (cases p) (auto simp: term_ok_def)

lemma fits_lit:
  "fits (lit s @ ns) pos ps r \<longleftrightarrow>
     (\<exists>ps'. ps = map (\<lambda>c. [c]) s @ ps' \<and> fits ns (pos + length s) ps' r)"
proof (induction s arbitrary: pos ps)
  case Nil
  then show ?case by (simp add: lit_def)
next
  case (Cons c s)
  have "fits (lit (c # s) @ ns) pos ps r \<longleftrightarrow>
      (\<exists>ps1. ps = [c] # ps1 \<and> fits (lit s @ ns) (Suc pos) ps1 r)"
    by (auto simp: lit_def fits_Term term_ok_Chr)
  also have "\<dots> \<longleftrightarrow> (\<exists>ps'. ps = map (\<lambda>c. [c]) (c # s) @ ps' \<and> fits ns (pos + length (c # s)) ps' r)"
    by (auto simp: Cons.IH)
  finally show ?case .
qed

lemma concat_singletons: "concat (map (\<lambda>c. [c]) s) = s"
  by (induction s) auto

lemma term_ok_space: "term_ok (Cls False [CSpace]) Plus p \<longleftrightarrow> p \<noteq> [] \<and> list_all is_space p"
  by (auto simp: term_ok_def list_all_iff)

lemma term_ok_binding:
  "term_ok (Cls False [CWord, CChar CHR ''{'', CChar CHR ''}'', CChar CHR '','',
                       CChar CHR ''*'', CSpace]) Plus p
   \<longleftrightarrow> p \<noteq> [] \<and> list_all is_binding_char p"
  by (auto simp: term_ok_def list_all_iff is_binding_char_def)

lemma term_ok_quote:
  "term_ok (Cls False [CChar squote, CChar dquote]) One p \<longleftrightarrow> (\<exists>q. p = [q] \<and> is_quote q)"
  by (cases p) (auto simp: term_ok_def is_quote_def)

lemma term_ok_not_quote:
  "term_ok (Cls True [CChar squote, CChar dquote]) Plus p
   \<longleftrightarrow> p \<noteq> [] \<and> list_all (\<lambda>c. \<not> is_quote c) p"
  by (auto simp: term_ok_def list_all_iff is_quote_def)


lemmas fits_unfold = append_Cons append_Nil fits_lit fits_Term
    term_ok_space term_ok_binding term_ok_quote term_ok_not_quote term_ok_Chr fits.simps(1)

lemma fits_importRegex1:
  assumes "fits importRegex pos ps r"
  shows "(\<exists>w1 b w2 w3 q1 p q2.
        ps = map (\<lambda>c. [c]) ''import'' @ [w1, b, w2] @ map (\<lambda>c. [c]) ''from'' @
             [w3, [q1], p, [q2], '';''] \<and>
        w1 \<noteq> [] \<and> list_all is_space w1 \<and>
        b \<noteq> [] \<and> list_all is_binding_char b \<and>
        w2 \<noteq> [] \<and> list_all is_space w2 \<and>
        w3 \<noteq> [] \<and> list_all is_space w3 \<and>
        is_quote q1 \<and> p \<noteq> [] \<and> list_all (\<lambda>c. \<not> is_quote c) p \<and> is_quote q2)"
  using assms
  unfolding importRegex_def fits_unfold
  apply (elim exE conjE)
  apply hypsubst
  apply simp
  done

lemma fits_importRegex2:
  assumes "w1 \<noteq> []" "list_all is_space w1" "b \<noteq> []" "list_all is_binding_char b"
    "w2 \<noteq> []" "list_all is_space w2" "w3 \<noteq> []" "list_all is_space w3"
    "is_quote q1" "p \<noteq> []" "list_all (\<lambda>c. \<not> is_quote c) p" "is_quote q2"
  shows "fits importRegex pos (map (\<lambda>c. [c]) ''import'' @ [w1, b, w2] @ map (\<lambda>c. [c]) ''from'' @
             [w3, [q1], p, [q2], '';'']) r"
  using assms
  unfolding importRegex_def fits_unfold
  apply simp
  done


lemma import_shape_fits:
  "import_shape m \<longleftrightarrow> (\<exists>ps. fits importRegex pos ps r \<and> concat ps = m)"
proof
  assume "import_shape m"
  then obtain w1 b w2 w3 q1 p q2 where
    m: "m = ''import'' @ w1 @ b @ w2 @ ''from'' @ w3 @ [q1] @ p @ [q2] @ '';''" and
    c: "w1 \<noteq> []" "list_all is_space w1" "b \<noteq> []" "list_all is_binding_char b"
    "w2 \<noteq> []" "list_all is_space w2" "w3 \<noteq> []" "list_all is_space w3"
    "is_quote q1" "p \<noteq> []" "list_all (\<lambda>c. \<not> is_quote c) p" "is_quote q2"
    unfolding import_shape_def by blast
  let ?ps = "map (\<lambda>c. [c]) ''import'' @ [w1, b, w2] @ map (\<lambda>c. [c]) ''from'' @
             [w3, [q1], p, [q2], '';'']"
  have "fits importRegex pos ?ps r" using c by (rule fits_importRegex2)
  moreover have "concat ?ps = m" unfolding m by simp
  ultimately show "\<exists>ps. fits importRegex pos ps r \<and> concat ps = m" by blast
next
  assume "\<exists>ps. fits importRegex pos ps r \<and> concat ps = m"
  then obtain ps where f: "fits importRegex pos ps r" and m: "concat ps = m" by blast
  from fits_importRegex1 [OF f] obtain w1 b w2 w3 q1 p q2 where
    ps: "ps = map (\<lambda>c. [c]) ''import'' @ [w1, b, w2] @ map (\<lambda>c. [c]) ''from'' @
             [w3, [q1], p, [q2], '';'']" and
    c: "w1 \<noteq> []" "list_all is_space w1" "b \<noteq> []" "list_all is_binding_char b"
    "w2 \<noteq> []" "list_all is_space w2" "w3 \<noteq> []" "list_all is_space w3"
    "is_quote q1" "p \<noteq> []" "list_all (\<lambda>c. \<not> is_quote c) p" "is_quote q2"
    by blast
  have "m = ''import'' @ w1 @ b @ w2 @ ''from'' @ w3 @ [q1] @ p @ [q2] @ '';''"
    unfolding m [symmetric] ps by simp
  with c show "import_shape m" unfolding import_shape_def by blast
qed

lemma bt_importRegex_iff:
  "bt importRegex pos s \<noteq> None \<longleftrightarrow> (\<exists>m rest. s = m @ rest \<and> import_shape m)"
proof
  assume "bt importRegex pos s \<noteq> None"
  then obtain ps r where "bt importRegex pos s = Some (ps, r)" by auto
  then have "s = concat ps @ r" "fits importRegex pos ps r"
    by (auto dest: bt_sound)
  then show "\<exists>m rest. s = m @ rest \<and> import_shape m"
    using import_shape_fits by blast
next
  assume "\<exists>m rest. s = m @ rest \<and> import_shape m"
  then obtain m rest where s: "s = m @ rest" and "import_shape m" by blast
  then obtain ps where "fits importRegex pos ps rest" "concat ps = m"
    using import_shape_fits by blast
  then show "bt importRegex pos s \<noteq> None"
    using bt_complete s by blast
qed

lemma bt_importRegex_shape:
  "bt importRegex pos s = Some (ps, r) \<Longrightarrow> import_shape (concat ps) \<and> s = concat ps @ r"
  using bt_sound import_shape_fits by blast

declare exec_all.simps [simp del]

lemma exec_all_member:
  "x \<in> set (exec_all re pos s) \<Longrightarrow>
   \<exists>pos' s' ps r. bt re pos' s' = Some (ps, r) \<and> x = (concat ps, captures re ps)"
proof (induction re pos s rule: exec_all.induct)
  case (1 re pos s)
  show ?case
  proof (cases "bt re pos s")
    case None
    with "1.prems" obtain c cs where s: "s = c # cs" and "x \<in> set (exec_all re (Suc pos) cs)"
      by (subst (asm) exec_all.simps) (auto split: list.splits)
    with "1.IH"(1) [OF None s] show ?thesis by blast
  next
    case (Some a)
    obtain ps r where a: "a = (ps, r)" by (cases a)
    show ?thesis
    proof (cases "x = (concat ps, captures re ps)")
      case True
      with Some a show ?thesis by blast
    next
      case False
      with "1.prems" Some a obtain c cs where s: "s = c # cs" and
        "x \<in> set (exec_all re (pos + max 1 (length (concat ps)))
                 (drop (max 1 (length (concat ps))) s))"
        by (subst (asm) exec_all.simps) (auto split: list.splits)
      with "1.IH"(2) [OF Some a [symmetric] s] show ?thesis by blast
    qed
  qed
qed

lemma exec_all_Nil:
  "exec_all re pos s = [] \<longleftrightarrow> (\<forall>i\<le>length s. bt re (pos + i) (drop i s) = None)"
proof (induction s arbitrary: pos)
  case Nil
  show ?case by (subst exec_all.simps) (auto split: option.splits)
next
  case (Cons c cs)
  have "exec_all re pos (c # cs) = [] \<longleftrightarrow>
      bt re pos (c # cs) = None \<and> exec_all re (Suc pos) cs = []"
    by (subst exec_all.simps) (auto split: option.splits)
  also have "\<dots> \<longleftrightarrow> bt re pos (c # cs) = None \<and>
      (\<forall>i\<le>length cs. bt re (Suc pos + i) (drop i cs) = None)"
    by (simp only: Cons.IH)
  also have "\<dots> \<longleftrightarrow> (\<forall>i\<le>length (c # cs). bt re (pos + i) (drop i (c # cs)) = None)"
  proof
    assume a: "bt re pos (c # cs) = None \<and>
      (\<forall>i\<le>length cs. bt re (Suc pos + i) (drop i cs) = None)"
    show "\<forall>i\<le>length (c # cs). bt re (pos + i) (drop i (c # cs)) = None"
    proof (intro allI impI)
      fix i assume "i \<le> length (c # cs)"
      then show "bt re (pos + i) (drop i (c # cs)) = None"
        using a by (cases i) auto
    qed
  next
    assume a: "\<forall>i\<le>length (c # cs). bt re (pos + i) (drop i (c # cs)) = None"
    from a [rule_format, of 0] have "bt re pos (c # cs) = None" by simp
    moreover have "\<forall>i\<le>length cs. bt re (Suc pos + i) (drop i cs) = None"
    proof (intro allI impI)
      fix i assume "i \<le> length cs"
      with a [rule_format, of "Suc i"] show "bt re (Suc pos + i) (drop i cs) = None" by simp
    qed
    ultimately show "bt re pos (c # cs) = None \<and>
      (\<forall>i\<le>length cs. bt re (Suc pos + i) (drop i cs) = None)" by blast
  qed
  finally show ?case .
qed

lemma exec_all_importRegex_Nil:
  "exec_all importRegex pos text = [] \<longleftrightarrow> \<not> (\<exists>pre m rest. text = pre @ m @ rest \<and> import_shape m)"
proof -
  have "(\<exists>pre m rest. text = pre @ m @ rest \<and> import_shape m) \<longleftrightarrow>
        (\<exists>i\<le>length text. \<exists>m rest. drop i text = m @ rest \<and> import_shape m)"
  proof
    assume "\<exists>pre m rest. text = pre @ m @ rest \<and> import_shape m"
    then obtain pre m rest where "text = pre @ m @ rest" "import_shape m" by blast
    then have "length pre \<le> length text" "drop (length pre) text = m @ rest" by simp_all
    with \<open>import_shape m\<close> show "\<exists>i\<le>length text. \<exists>m rest. drop i text = m @ rest \<and> import_shape m"
      by blast
  next
    assume "\<exists>i\<le>length text. \<exists>m rest. drop i text = m @ rest \<and> import_shape m"
    then obtain i m rest where "drop i text = m @ rest" "import_shape m" by blast
    then have "text = take i text @ m @ rest" by (metis append_take_drop_id)
    with \<open>import_shape m\<close> show "\<exists>pre m rest. text = pre @ m @ rest \<and> import_shape m" by blast
  qed
  then show ?thesis
    unfolding exec_all_Nil using bt_importRegex_iff by (metis option.exhaust)
qed


lemma callback_match: "callback engine t m p = Some x \<Longrightarrow> match x = m"
  by (induction t) (auto split: if_splits)

lemma collect_matches_shape:
  assumes "x \<in> set (collect_matches engine t text)"
  shows "import_shape (match x)"
proof -
  from assms obtain m caps where mc: "(m, caps) \<in> set (exec_all importRegex 0 text)"
    and "(case caps of [] \<Rightarrow> None | p # _ \<Rightarrow> callback engine t m p) = Some x"
    unfolding collect_matches_def map_filter_set by auto
  then obtain p where "callback engine t m p = Some x"
    by (cases caps) auto
  then have "match x = m" by (rule callback_match)
  moreover from mc obtain pos' s' ps r where "bt importRegex pos' s' = Some (ps, r)" "m = concat ps"
    by (auto dest: exec_all_member)
  ultimately show ?thesis using bt_importRegex_shape [of pos' s' ps r] by simp
qed

text \<open>
  C8, as the claim states it, fails: the semicolon is not optional. The statement
  \<^verbatim>\<open>import x from '@app/x'\<close> without a semicolon is not found by the scan and not
  recorded, although the rule accepts its path; with the semicolon it is recorded.
\<close>

theorem import_without_semicolon_not_recorded:
  "exec_all importRegex 0 (''import x from '' @ [squote] @ ''@app/x'' @ [squote]) = [] \<and>
   collect_matches example_engine [app_rule] (''import x from '' @ [squote] @ ''@app/x'' @ [squote]) = [] \<and>
   test example_engine (aliasRegex app_rule) ''@app/x'' \<and>
   collect_matches example_engine [app_rule] (''import x from '' @ [squote] @ ''@app/x'' @ [squote] @ '';'') =
     [\<lparr>match = ''import x from '' @ [squote] @ ''@app/x'' @ [squote] @ '';'',
       matchAlias = ''@app'', importPath = ''@app/x'', aliasPath = ''src/app''\<rparr>]"
  by code_simp

text \<open>
  C8, amended: the import pattern matches at an offset of a text exactly when the text
  from that offset begins with a statement of the shape \<^verbatim>\<open>import\<close>, white space, a
  bindings clause of word characters, braces, commas, \<^verbatim>\<open>*\<close> and white space, white space,
  \<^verbatim>\<open>from\<close>, white space, a single or double quote, a non-empty text without quotes,
  a single or double quote, and a semicolon, which is required. Every statement the
  scanner records has that shape, and the scan finds no statement exactly when the text
  contains none of that shape.
\<close>

theorem import_pattern_shape:
  "(bt importRegex pos s \<noteq> None) = (\<exists>m rest. s = m @ rest \<and> import_shape m) \<and>
   (\<forall>x\<in>set (collect_matches engine t text). import_shape (match x)) \<and>
   (exec_all importRegex 0 text = []) =
     (\<not> (\<exists>pre m rest. text = pre @ m @ rest \<and> import_shape m))"
proof (intro conjI ballI)
  show "(bt importRegex pos s \<noteq> None) = (\<exists>m rest. s = m @ rest \<and> import_shape m)"
    by (rule bt_importRegex_iff)
  show "import_shape (match x)" if "x \<in> set (collect_matches engine t text)" for x
    using that by (rule collect_matches_shape)
  show "(exec_all importRegex 0 text = []) =
     (\<not> (\<exists>pre m rest. text = pre @ m @ rest \<and> import_shape m))"
    by (rule exec_all_importRegex_Nil)
qed

theorem import_pattern_shape_witness:
  "bt importRegex 0 (import_stmt ''{ a, b }'' ''./c'' @ '' a();'') \<noteq> None \<and>
   (\<exists>m rest. import_stmt ''{ a, b }'' ''./c'' @ '' a();'' = m @ rest \<and> import_shape m)"
proof -
  have 1: "bt importRegex 0 (import_stmt ''{ a, b }'' ''./c'' @ '' a();'') \<noteq> None"
    by code_simp
  from import_pattern_shape
    [of 0 "import_stmt ''{ a, b }'' ''./c'' @ '' a();''" example_engine "[]" "[]"]
  have "(bt importRegex 0 (import_stmt ''{ a, b }'' ''./c'' @ '' a();'') \<noteq> None) =
    (\<exists>m rest. import_stmt ''{ a, b }'' ''./c'' @ '' a();'' = m @ rest \<and> import_shape m)"
    by (rule conjunct1)
  with 1 show ?thesis by simp
qed

end
